theory Spec2Isabelle
  imports Main "HOL-Library.AList"
begin

section \<open>JavaScript values\<close>

text \<open>
  The backend and the browser client exchange untyped JSON: request bodies, the model's
  answer after \<^verbatim>\<open>JSON.parse\<close>, and the documents of the \<^verbatim>\<open>catches\<close> collection.
  A JavaScript string is modelled by its UTF-16 code units, each one written as in UTF-8
  (one to three bytes), so ASCII text is itself. A number keeps its source text: IEEE
  rounding is not modelled. \<open>JTimestamp\<close> is the store's timestamp type; it never comes
  out of \<^verbatim>\<open>JSON.parse\<close>. \<^verbatim>\<open>undefined\<close> is \<open>None\<close> of \<open>jsval option\<close>.
\<close>

datatype jsval =
    JNull
  | JBool bool
  | JNum string
  | JStr string
  | JArr "jsval list"
  | JObj "(string \<times> jsval) list"
  | JTimestamp nat

definition is_digit :: "char \<Rightarrow> bool" where
  "is_digit c = (48 \<le> (of_char c :: nat) \<and> (of_char c :: nat) \<le> 57)"

text \<open>A number is falsy when it is zero: no digit of its mantissa is non-zero.\<close>

definition num_nonzero :: "string \<Rightarrow> bool" where
  "num_nonzero l =
     (\<exists>c \<in> set (takeWhile (\<lambda>c. c \<noteq> CHR ''e'' \<and> c \<noteq> CHR ''E'') l). is_digit c \<and> c \<noteq> CHR ''0'')"

fun js_truthy :: "jsval \<Rightarrow> bool" where
  "js_truthy JNull = False"
| "js_truthy (JBool b) = b"
| "js_truthy (JNum l) = num_nonzero l"
| "js_truthy (JStr s) = (s \<noteq> [])"
| "js_truthy (JArr xs) = True"
| "js_truthy (JObj kvs) = True"
| "js_truthy (JTimestamp t) = True"

definition truthy :: "jsval option \<Rightarrow> bool" where
  "truthy x = (case x of None \<Rightarrow> False | Some v \<Rightarrow> js_truthy v)"

text \<open>\<^verbatim>\<open>x || d\<close>: the left operand when it is truthy, the default otherwise.\<close>

definition js_or :: "jsval option \<Rightarrow> jsval \<Rightarrow> jsval" where
  "js_or x d = (case x of None \<Rightarrow> d | Some v \<Rightarrow> if js_truthy v then v else d)"

text \<open>
  Assigning a property keeps the place of a key that is already there and appends a new
  one, as a JavaScript object does.
\<close>

definition obj_set :: "(string \<times> jsval) list \<Rightarrow> string \<Rightarrow> jsval \<Rightarrow> (string \<times> jsval) list" where
  "obj_set kvs k v = AList.update k v kvs"

section \<open>\<^verbatim>\<open>JSON.parse\<close>\<close>

text \<open>
  The built-in parser, after the JSON grammar of ECMA-404: a lexer over the characters and
  a pushdown recogniser over the tokens. \<open>None\<close> is the \<^verbatim>\<open>SyntaxError\<close>.
\<close>

datatype token =
    TLBrace | TRBrace | TLBracket | TRBracket | TComma | TColon
  | TString string | TNumber string | TTrue | TFalse | TNull

definition is_json_ws :: "char \<Rightarrow> bool" where
  "is_json_ws c = (c = CHR '' '' \<or> c = CHR 0x09 \<or> c = CHR 0x0A \<or> c = CHR 0x0D)"

definition hex_val :: "char \<Rightarrow> nat option" where
  "hex_val c =
     (if is_digit c then Some (of_char c - 48)
      else if 97 \<le> (of_char c :: nat) \<and> (of_char c :: nat) \<le> 102 then Some (of_char c - 87)
      else if 65 \<le> (of_char c :: nat) \<and> (of_char c :: nat) \<le> 70 then Some (of_char c - 55)
      else None)"

definition hex4 :: "string \<Rightarrow> nat option" where
  "hex4 s =
     (case map hex_val (take 4 s) of
        [Some a, Some b, Some c, Some d] \<Rightarrow> Some (((a * 16 + b) * 16 + c) * 16 + d)
      | _ \<Rightarrow> None)"

text \<open>One code unit in the string model: one, two or three bytes.\<close>

definition encode_unit :: "nat \<Rightarrow> string" where
  "encode_unit n =
     (if n < 128 then [char_of n]
      else if n < 2048 then [char_of (192 + n div 64), char_of (128 + n mod 64)]
      else [char_of (224 + n div 4096), char_of (128 + (n div 64) mod 64),
            char_of (128 + n mod 64)])"

definition unescape :: "char \<Rightarrow> char option" where
  "unescape e =
     (if e = CHR 0x22 \<or> e = CHR 0x5C \<or> e = CHR ''/'' then Some e
      else if e = CHR ''b'' then Some (CHR 0x08)
      else if e = CHR ''f'' then Some (CHR 0x0C)
      else if e = CHR ''n'' then Some (CHR 0x0A)
      else if e = CHR ''r'' then Some (CHR 0x0D)
      else if e = CHR ''t'' then Some (CHR 0x09)
      else None)"

text \<open>
  The characters of a string literal after its opening quote: the decoded string and what
  follows the closing quote. A raw control character and an unknown escape are errors.
\<close>

function lex_string :: "string \<Rightarrow> (string \<times> string) option" where
  "lex_string [] = None"
| "lex_string (c # cs) =
     (if c = CHR 0x22 then Some ([], cs)
      else if c = CHR 0x5C then
        (case cs of
           [] \<Rightarrow> None
         | e # cs' \<Rightarrow>
             if e = CHR ''u'' then
               (case hex4 cs' of
                  None \<Rightarrow> None
                | Some n \<Rightarrow>
                    (case lex_string (drop 4 cs') of
                       None \<Rightarrow> None
                     | Some (s, r) \<Rightarrow> Some (encode_unit n @ s, r)))
             else
               (case unescape e of
                  None \<Rightarrow> None
                | Some ch \<Rightarrow>
                    (case lex_string cs' of
                       None \<Rightarrow> None
                     | Some (s, r) \<Rightarrow> Some (ch # s, r))))
      else if (of_char c :: nat) < 32 then None
      else (case lex_string cs of None \<Rightarrow> None | Some (s, r) \<Rightarrow> Some (c # s, r)))"
  by pat_completeness auto
termination
  by (relation "measure length") auto

text \<open>
  A number literal at the head of the input: its text and the rest. The grammar is
  \<^verbatim>\<open>-?(0|[1-9][0-9]*)(\.[0-9]+)?([eE][+-]?[0-9]+)?\<close>.
\<close>

definition lex_int :: "string \<Rightarrow> (string \<times> string) option" where
  "lex_int s =
     (case s of
        [] \<Rightarrow> None
      | d # r \<Rightarrow>
          if d = CHR ''0'' then Some ([d], r)
          else if is_digit d then Some (d # takeWhile is_digit r, dropWhile is_digit r)
          else None)"

definition lex_frac :: "string \<Rightarrow> (string \<times> string) option" where
  "lex_frac s =
     (case s of
        [] \<Rightarrow> Some ([], s)
      | d # r \<Rightarrow>
          if d = CHR ''.'' then
            (if takeWhile is_digit r = [] then None
             else Some (d # takeWhile is_digit r, dropWhile is_digit r))
          else Some ([], s))"

definition lex_exp :: "string \<Rightarrow> (string \<times> string) option" where
  "lex_exp s =
     (case s of
        [] \<Rightarrow> Some ([], s)
      | e # r \<Rightarrow>
          if e = CHR ''e'' \<or> e = CHR ''E'' then
            (let sg = (case r of [] \<Rightarrow> [] | x # _ \<Rightarrow> if x = CHR ''+'' \<or> x = CHR ''-'' then [x] else []);
                 r' = drop (length sg) r
             in if takeWhile is_digit r' = [] then None
                else Some (e # sg @ takeWhile is_digit r', dropWhile is_digit r'))
          else Some ([], s))"

definition lex_number :: "string \<Rightarrow> (string \<times> string) option" where
  "lex_number s =
     (let sg = (case s of [] \<Rightarrow> [] | x # _ \<Rightarrow> if x = CHR ''-'' then [x] else [])
      in case lex_int (drop (length sg) s) of
           None \<Rightarrow> None
         | Some (i, r1) \<Rightarrow>
             (case lex_frac r1 of
                None \<Rightarrow> None
              | Some (f, r2) \<Rightarrow>
                  (case lex_exp r2 of
                     None \<Rightarrow> None
                   | Some (e, r3) \<Rightarrow> Some (sg @ i @ f @ e, r3))))"

lemma lex_string_step:
  assumes "lex_string (c # cs) = Some (t, r)"
  shows "r = cs \<or> (\<exists>n t'. lex_string (drop n cs) = Some (t', r))"
proof (cases "c = CHR 0x22")
  case True
  with assms show ?thesis by simp
next
  case notq: False
  show ?thesis
  proof (cases "c = CHR 0x5C")
    case True
    with notq assms obtain e cs' where cs: "cs = e # cs'"
      by (cases cs) auto
    show ?thesis
    proof (cases "e = CHR ''u''")
      case True
      with notq \<open>c = CHR 0x5C\<close> cs assms obtain t' where "lex_string (drop 4 cs') = Some (t', r)"
        by (auto split: option.splits)
      then have "lex_string (drop 5 cs) = Some (t', r)" by (simp add: cs)
      then show ?thesis by blast
    next
      case False
      with notq \<open>c = CHR 0x5C\<close> cs assms obtain t' where "lex_string cs' = Some (t', r)"
        by (auto split: option.splits)
      then have "lex_string (drop 1 cs) = Some (t', r)" by (simp add: cs)
      then show ?thesis by blast
    qed
  next
    case False
    with notq assms obtain t' where "lex_string cs = Some (t', r)"
      by (auto split: option.splits if_splits)
    then have "lex_string (drop 0 cs) = Some (t', r)" by simp
    then show ?thesis by blast
  qed
qed

lemma lex_string_length: "lex_string s = Some (t, r) \<Longrightarrow> length r < length s"
proof (induction "length s" arbitrary: s t r rule: less_induct)
  case less
  from less.prems obtain c cs where s: "s = c # cs"
    by (cases s) auto
  from lex_string_step [of c cs t r] less.prems s
  consider "r = cs" | n t' where "lex_string (drop n cs) = Some (t', r)"
    by blast
  then show ?case
  proof cases
    case 1
    then show ?thesis by (simp add: s)
  next
    case 2
    have "length (drop n cs) < length s" by (simp add: s less_Suc_eq_le)
    from less.hyps [OF this 2] show ?thesis by (simp add: s)
  qed
qed

lemma lex_int_length: "lex_int s = Some (t, r) \<Longrightarrow> length r < length s"
  by (auto simp: lex_int_def less_Suc_eq_le length_dropWhile_le split: list.splits if_splits)

lemma lex_frac_length: "lex_frac s = Some (t, r) \<Longrightarrow> length r \<le> length s"
  by (auto simp: lex_frac_def le_SucI length_dropWhile_le split: list.splits if_splits)

lemma length_dropWhile_drop: "length (dropWhile P (drop n xs)) \<le> length xs"
  by (rule le_trans [OF length_dropWhile_le]) simp

lemma lex_exp_length:
  assumes "lex_exp s = Some (t, r)"
  shows "length r \<le> length s"
proof (cases s)
  case Nil
  with assms show ?thesis by (simp add: lex_exp_def)
next
  case (Cons e r0)
  with assms have "r = s \<or> (\<exists>n. r = dropWhile is_digit (drop n r0))"
    by (auto simp: lex_exp_def Let_def split: if_splits)
  then show ?thesis
    using Cons by (auto simp: le_SucI length_dropWhile_drop)
qed

lemma lex_number_length: "lex_number s = Some (t, r) \<Longrightarrow> length r < length s"
proof -
  assume a: "lex_number s = Some (t, r)"
  define sg where "sg = (case s of [] \<Rightarrow> [] | x # _ \<Rightarrow> if x = CHR ''-'' then [x] else [])"
  from a obtain i r1 f r2 e where
    i: "lex_int (drop (length sg) s) = Some (i, r1)" and
    f: "lex_frac r1 = Some (f, r2)" and
    e: "lex_exp r2 = Some (e, r)"
    by (auto simp: lex_number_def Let_def sg_def split: option.splits)
  from lex_int_length [OF i] have "length r1 < length s" by simp
  with lex_frac_length [OF f] lex_exp_length [OF e] show ?thesis by simp
qed

definition starts_with :: "string \<Rightarrow> string \<Rightarrow> bool" where
  "starts_with p s = (take (length p) s = p)"

function lex :: "string \<Rightarrow> token list option" where
  "lex s =
     (case s of
        [] \<Rightarrow> Some []
      | c # cs \<Rightarrow>
          if is_json_ws c then lex cs
          else if c = CHR ''{'' then map_option (Cons TLBrace) (lex cs)
          else if c = CHR ''}'' then map_option (Cons TRBrace) (lex cs)
          else if c = CHR ''['' then map_option (Cons TLBracket) (lex cs)
          else if c = CHR '']'' then map_option (Cons TRBracket) (lex cs)
          else if c = CHR '','' then map_option (Cons TComma) (lex cs)
          else if c = CHR '':'' then map_option (Cons TColon) (lex cs)
          else if c = CHR 0x22 then
            (case lex_string cs of
               None \<Rightarrow> None
             | Some (t, r) \<Rightarrow> map_option (Cons (TString t)) (lex r))
          else if c = CHR ''-'' \<or> is_digit c then
            (case lex_number s of
               None \<Rightarrow> None
             | Some (t, r) \<Rightarrow> map_option (Cons (TNumber t)) (lex r))
          else if starts_with ''true'' s then map_option (Cons TTrue) (lex (drop 4 s))
          else if starts_with ''false'' s then map_option (Cons TFalse) (lex (drop 5 s))
          else if starts_with ''null'' s then map_option (Cons TNull) (lex (drop 4 s))
          else None)"
  by pat_completeness auto
termination
  apply (relation "measure length")
  apply simp_all
  subgoal for s c cs p t r
    using lex_string_length [of cs t r] by auto
  subgoal for s c cs p t r
    using lex_number_length [of "c # cs" t r] by auto
  done

declare lex.simps [simp del]

text \<open>
  The recogniser keeps a stack of the containers that are open, each with what it holds
  so far (an object also with the key that waits for its value), and what may come next.
\<close>

datatype frame = ArrFrame "jsval list" | ObjFrame "(string \<times> jsval) list" string

datatype expect =
    ExpValue | ExpValueOrClose | ExpKeyOrClose | ExpKey | ExpColon | ExpCommaOrClose
  | ExpEnd jsval

fun push_value :: "jsval \<Rightarrow> frame list \<Rightarrow> frame list \<times> expect" where
  "push_value v [] = ([], ExpEnd v)"
| "push_value v (ArrFrame xs # st) = (ArrFrame (xs @ [v]) # st, ExpCommaOrClose)"
| "push_value v (ObjFrame kvs k # st) = (ObjFrame (obj_set kvs k v) k # st, ExpCommaOrClose)"

definition value_token :: "frame list \<Rightarrow> token \<Rightarrow> (frame list \<times> expect) option" where
  "value_token st t =
     (case t of
        TLBrace \<Rightarrow> Some (ObjFrame [] [] # st, ExpKeyOrClose)
      | TLBracket \<Rightarrow> Some (ArrFrame [] # st, ExpValueOrClose)
      | TString s \<Rightarrow> Some (push_value (JStr s) st)
      | TNumber l \<Rightarrow> Some (push_value (JNum l) st)
      | TTrue \<Rightarrow> Some (push_value (JBool True) st)
      | TFalse \<Rightarrow> Some (push_value (JBool False) st)
      | TNull \<Rightarrow> Some (push_value JNull st)
      | _ \<Rightarrow> None)"

definition close_token :: "frame list \<Rightarrow> token \<Rightarrow> (frame list \<times> expect) option" where
  "close_token st t =
     (case (st, t) of
        (ArrFrame xs # st', TRBracket) \<Rightarrow> Some (push_value (JArr xs) st')
      | (ObjFrame kvs k # st', TRBrace) \<Rightarrow> Some (push_value (JObj kvs) st')
      | _ \<Rightarrow> None)"

definition key_token :: "frame list \<Rightarrow> token \<Rightarrow> (frame list \<times> expect) option" where
  "key_token st t =
     (case (st, t) of
        (ObjFrame kvs k # st', TString s) \<Rightarrow> Some (ObjFrame kvs s # st', ExpColon)
      | _ \<Rightarrow> None)"

definition pstep :: "frame list \<times> expect \<Rightarrow> token \<Rightarrow> (frame list \<times> expect) option" where
  "pstep cfg t =
     (case cfg of (st, ex) \<Rightarrow>
        (case ex of
           ExpValue \<Rightarrow> value_token st t
         | ExpValueOrClose \<Rightarrow> (if t = TRBracket then close_token st t else value_token st t)
         | ExpKeyOrClose \<Rightarrow> (if t = TRBrace then close_token st t else key_token st t)
         | ExpKey \<Rightarrow> key_token st t
         | ExpColon \<Rightarrow> (if t = TColon then Some (st, ExpValue) else None)
         | ExpCommaOrClose \<Rightarrow>
             (if t = TComma then
                (case st of
                   ArrFrame xs # _ \<Rightarrow> Some (st, ExpValue)
                 | ObjFrame kvs k # _ \<Rightarrow> Some (st, ExpKey)
                 | [] \<Rightarrow> None)
              else close_token st t)
         | ExpEnd v \<Rightarrow> None))"

fun parse_tokens :: "frame list \<times> expect \<Rightarrow> token list \<Rightarrow> jsval option" where
  "parse_tokens cfg [] = (case snd cfg of ExpEnd v \<Rightarrow> Some v | _ \<Rightarrow> None)"
| "parse_tokens cfg (t # ts) =
     (case pstep cfg t of None \<Rightarrow> None | Some cfg' \<Rightarrow> parse_tokens cfg' ts)"

definition JSON_parse :: "string \<Rightarrow> jsval option" where
  "JSON_parse s = (case lex s of None \<Rightarrow> None | Some ts \<Rightarrow> parse_tokens ([], ExpValue) ts)"


section \<open>Cleaning the model's answer\<close>

text \<open>
  \<^verbatim>\<open>text.replace(/```json\n?|```\n?/g, "")\<close>: scanning from the left, three backticks, with
  \<^verbatim>\<open>json\<close> after them when it is there, and one newline after that when it is there, are
  removed; every other character is kept.
\<close>

definition drop_newline :: "string \<Rightarrow> string" where
  "drop_newline r = (case r of [] \<Rightarrow> [] | c # r' \<Rightarrow> if c = CHR 0x0A then r' else r)"

definition after_fence :: "string \<Rightarrow> string" where
  "after_fence r = (if starts_with ''json'' r then drop_newline (drop 4 r) else drop_newline r)"

lemma drop_newline_length: "length (drop_newline r) \<le> length r"
  by (cases r) (simp_all add: drop_newline_def)

lemma after_fence_length: "length (after_fence r) \<le> length r"
proof (cases "starts_with ''json'' r")
  case True
  have "length (drop_newline (drop 4 r)) \<le> length (drop 4 r)"
    by (rule drop_newline_length)
  with True show ?thesis by (simp add: after_fence_def)
next
  case False
  then show ?thesis by (simp add: after_fence_def drop_newline_length)
qed

function strip_fences :: "string \<Rightarrow> string" where
  "strip_fences s =
     (case s of
        [] \<Rightarrow> []
      | c # cs \<Rightarrow>
          if starts_with ''```'' s then strip_fences (after_fence (drop 3 s))
          else c # strip_fences cs)"
  by pat_completeness auto
termination
  apply (relation "measure length")
  apply simp_all
  subgoal for s c cs
    using after_fence_length [of "drop 2 cs"] by (cases cs) (auto simp: starts_with_def)
  done

declare strip_fences.simps [simp del]


text \<open>
  \<^verbatim>\<open>String.prototype.trim\<close> removes white space and line terminators at both ends: the code
  units 9 to 13, 32, 160, 0x1680, 0x2000 to 0x200A, 0x2028, 0x2029, 0x202F, 0x205F, 0x3000
  and 0xFEFF, listed here as they are written in the string model.
\<close>

definition js_ws_seqs :: "string list" where
  "js_ws_seqs =
     [[CHR 0x09], [CHR 0x0A], [CHR 0x0B], [CHR 0x0C], [CHR 0x0D], [CHR 0x20],
      [CHR 0xC2, CHR 0xA0], [CHR 0xE1, CHR 0x9A, CHR 0x80],
      [CHR 0xE2, CHR 0x80, CHR 0x80], [CHR 0xE2, CHR 0x80, CHR 0x81],
      [CHR 0xE2, CHR 0x80, CHR 0x82], [CHR 0xE2, CHR 0x80, CHR 0x83],
      [CHR 0xE2, CHR 0x80, CHR 0x84], [CHR 0xE2, CHR 0x80, CHR 0x85],
      [CHR 0xE2, CHR 0x80, CHR 0x86], [CHR 0xE2, CHR 0x80, CHR 0x87],
      [CHR 0xE2, CHR 0x80, CHR 0x88], [CHR 0xE2, CHR 0x80, CHR 0x89],
      [CHR 0xE2, CHR 0x80, CHR 0x8A], [CHR 0xE2, CHR 0x80, CHR 0xA8],
      [CHR 0xE2, CHR 0x80, CHR 0xA9], [CHR 0xE2, CHR 0x80, CHR 0xAF],
      [CHR 0xE2, CHR 0x81, CHR 0x9F], [CHR 0xE3, CHR 0x80, CHR 0x80],
      [CHR 0xEF, CHR 0xBB, CHR 0xBF]]"

text \<open>Removing, as long as there is one, a leading occurrence of one of the given sequences.\<close>

function strip_leading :: "string list \<Rightarrow> string \<Rightarrow> string" where
  "strip_leading ws s =
     (case find (\<lambda>w. w \<noteq> [] \<and> starts_with w s) ws of
        None \<Rightarrow> s
      | Some w \<Rightarrow> strip_leading ws (drop (length w) s))"
  by pat_completeness auto
termination
  apply (relation "measure (\<lambda>(ws, s). length s)")
  apply simp_all
  subgoal for ws s w
    by (cases s) (auto simp: find_Some_iff starts_with_def)
  done

declare strip_leading.simps [simp del]

definition js_trim :: "string \<Rightarrow> string" where
  "js_trim s = strip_leading js_ws_seqs (rev (strip_leading (map rev js_ws_seqs) (rev s)))"



text \<open>Variant A: \<^verbatim>\<open>textContent.text.replace(...).trim()\<close>.\<close>

definition clean_text :: "string \<Rightarrow> string" where
  "clean_text t = js_trim (strip_fences t)"

text \<open>
  Variant B: \<^verbatim>\<open>text.match(/\{[\s\S]*\}/)?.[0] || "{}"\<close>. The match starts at the first
  opening brace and, the star being greedy, ends at the last closing brace after it; with no
  such pair there is no match and the text parsed is \<^verbatim>\<open>{}\<close>.
\<close>

definition brace_match :: "string \<Rightarrow> string option" where
  "brace_match t =
     (let from_open = dropWhile (\<lambda>c. c \<noteq> CHR ''{'') t
      in if CHR ''}'' \<in> set (drop 1 from_open)
         then Some (rev (dropWhile (\<lambda>c. c \<noteq> CHR ''}'') (rev from_open)))
         else None)"

definition extract_json :: "string \<Rightarrow> string" where
  "extract_json t = (case brace_match t of None \<Rightarrow> ''{}'' | Some m \<Rightarrow> m)"

section \<open>The store and the outside world\<close>

text \<open>
  The \<^verbatim>\<open>catches\<close> collection is a list of documents with their identifiers, in the order
  of their creation. A document is the list of its fields. The store takes any defined
  value; data with an \<^verbatim>\<open>undefined\<close> field is refused, as the admin SDK does by default.
  Limits of the store itself (sizes, directly nested arrays) and access rules, which are
  no part of the sources, are not modelled.
\<close>

type_synonym doc = "(string \<times> jsval) list"
type_synonym collection = "(string \<times> doc) list"

fun defined_fields :: "(string \<times> jsval option) list \<Rightarrow> doc option" where
  "defined_fields [] = Some []"
| "defined_fields ((k, None) # fs) = None"
| "defined_fields ((k, Some v) # fs) = map_option (Cons (k, v)) (defined_fields fs)"

text \<open>\<^verbatim>\<open>res.json\<close> and \<^verbatim>\<open>JSON.stringify\<close> leave an \<^verbatim>\<open>undefined\<close> property out.\<close>

fun json_object :: "(string \<times> jsval option) list \<Rightarrow> doc" where
  "json_object [] = []"
| "json_object ((k, None) # fs) = json_object fs"
| "json_object ((k, Some v) # fs) = (k, v) # json_object fs"

datatype failure =
    StorageError | ImageError | ModelError | NoTextResponse | JsonSyntaxError | StoreError
  | TypeError | FileNotFound | UnexpectedResponseType | UnknownTool | NoArguments

text \<open>
  A response body: the plain text of the 405, a JSON value, the body of the catch block
  of the cloud function (\<^verbatim>\<open>{error: "Failed to identify fish", details}\<close>), or the body of
  the catch block of the standalone server (\<^verbatim>\<open>{error: message}\<close>); the message is kept as
  the kind of failure.
\<close>

datatype body = TextBody string | JsonBody jsval | FailureBody failure | ErrorBody failure

datatype response = Response (status: nat) (payload: body)

record request =
  req_method :: string
  body :: "(string \<times> jsval) list"

datatype block = TextBlock string | OtherBlock string

fun is_text :: "block \<Rightarrow> bool" where
  "is_text (TextBlock t) = True"
| "is_text (OtherBlock k) = False"

record user_record =
  displayName :: "string option"
  photoURL :: "string option"

text \<open>The calls that leave the process, in the order they are made.\<close>

datatype call =
    AuthGetUser jsval
  | StorageDownload jsval
  | ImageResize string
  | ModelCreate string string
  | StoreAdd
  | FileExists "jsval option"
  | SignedUrl "jsval option"
  | ModelCreateUrl string

text \<open>
  What the outside world answers during one invocation; \<open>None\<close> is a call that throws.
  \<open>resize\<close> is the whole \<^verbatim>\<open>sharp(...).resize(1568, 1568, {fit: "inside",
  withoutEnlargement: true}).jpeg({quality: 80}).toBuffer()\<close> pipeline, \<open>model_reply\<close>
  the content blocks of the one model call, \<open>new_id\<close> and \<open>now\<close> the identifier and the
  time the store assigns.
\<close>

record env =
  get_user :: "jsval \<Rightarrow> user_record option"
  download :: "jsval \<Rightarrow> string option"
  resize :: "string \<Rightarrow> string option"
  file_exists :: "jsval option \<Rightarrow> bool option"
  signed_url :: "jsval option \<Rightarrow> string option"
  model_reply :: "block list option"
  new_id :: string
  now :: nat

definition store_add :: "env \<Rightarrow> collection \<Rightarrow> (string \<times> jsval option) list \<Rightarrow> (string \<times> collection) option" where
  "store_add e db fs =
     (case defined_fields fs of
        None \<Rightarrow> None
      | Some d \<Rightarrow> Some (new_id e, db @ [(new_id e, d)]))"

definition ascii_lower :: "char \<Rightarrow> char" where
  "ascii_lower c =
     (if 65 \<le> (of_char c :: nat) \<and> (of_char c :: nat) \<le> 90 then char_of ((of_char c :: nat) + 32) else c)"

definition ends_with :: "string \<Rightarrow> string \<Rightarrow> bool" where
  "ends_with suffix s = starts_with (rev suffix) (rev s)"

text \<open>
  The media type, from the suffix of the storage path; \<^verbatim>\<open>toLowerCase\<close> of a value that
  is not a string is a \<^verbatim>\<open>TypeError\<close>.
\<close>

definition media_type :: "jsval \<Rightarrow> string option" where
  "media_type imageUrl =
     (case imageUrl of
        JStr p \<Rightarrow>
          (let l = map ascii_lower p
           in Some (if ends_with ''.png'' l then ''image/png''
                    else if ends_with ''.webp'' l then ''image/webp''
                    else if ends_with ''.gif'' l then ''image/gif''
                    else ''image/jpeg''))
      | _ \<Rightarrow> None)"

definition missing_fields :: body where
  "missing_fields = JsonBody (JObj [(''error'', JStr ''Missing required fields'')])"

section \<open>The image sent to the model\<close>

text \<open>
  The size of the image that is sent to the model. The pipeline is
  \<^verbatim>\<open>sharp(imageBuffer).resize(1568, 1568, {fit: "inside", withoutEnlargement: true})\<close>
  followed by \<^verbatim>\<open>.jpeg({quality: 80})\<close>, which keeps the size. For \<^verbatim>\<open>fit: "inside"\<close> the library
  scales both edges by the same factor, the larger of width by target width and height by
  target height, so that the image is as large as possible within the target; with
  \<^verbatim>\<open>withoutEnlargement\<close> an image that is within the target already is left as it is. The
  edge that decides the factor comes out as the target; the other one is rounded to the
  nearest whole pixel, and is never less than one pixel. The arithmetic is exact here,
  on images of at least one pixel each way; the library computes the factor in floating
  point, so an edge that falls exactly between two pixels may come out one pixel lower
  there.
\<close>

definition round_div :: "nat \<Rightarrow> nat \<Rightarrow> nat" where
  "round_div a b = (2 * a + b) div (2 * b)"

definition resize_inside :: "nat \<Rightarrow> nat \<Rightarrow> bool \<Rightarrow> nat \<times> nat \<Rightarrow> nat \<times> nat" where
  "resize_inside tw th without_enlargement sz =
     (case sz of (w, h) \<Rightarrow>
        if without_enlargement \<and> w \<le> tw \<and> h \<le> th then (w, h)
        else if h * tw \<le> w * th then (tw, max 1 (round_div (h * tw) w))
        else (max 1 (round_div (w * th) h), th))"

definition downscaled_size :: "nat \<times> nat \<Rightarrow> nat \<times> nat" where
  "downscaled_size = resize_inside 1568 1568 True"

section \<open>The cloud function \<^verbatim>\<open>identifyFish\<close>\<close>

text \<open>
  The body of the \<^verbatim>\<open>try\<close> block after the check of the required fields, from the
  download to the response; \<open>Inl\<close> is what the \<^verbatim>\<open>catch\<close> block receives. \<open>extra\<close> holds
  the fields the enriched variant adds to the document.
\<close>

definition identify_and_store ::
  "env \<Rightarrow> collection \<Rightarrow> call list \<Rightarrow> (string \<times> jsval option) list \<Rightarrow> jsval \<Rightarrow> jsval option \<Rightarrow>
   jsval option \<Rightarrow> jsval option \<Rightarrow> (failure + response) \<times> call list \<times> collection" where
  "identify_and_store e db tr0 extra imageUrl imageDownloadUrl userId catchDetails =
     (case download e imageUrl of
        None \<Rightarrow> (Inl StorageError, tr0 @ [StorageDownload imageUrl], db)
      | Some imageBuffer \<Rightarrow>
     (case resize e imageBuffer of
        None \<Rightarrow> (Inl ImageError, tr0 @ [StorageDownload imageUrl, ImageResize imageBuffer], db)
      | Some resizedBuffer \<Rightarrow>
     (case media_type imageUrl of
        None \<Rightarrow> (Inl TypeError, tr0 @ [StorageDownload imageUrl, ImageResize imageBuffer], db)
      | Some mediaType \<Rightarrow>
     (let tr = tr0 @ [StorageDownload imageUrl, ImageResize imageBuffer,
                      ModelCreate mediaType resizedBuffer]
      in case model_reply e of
        None \<Rightarrow> (Inl ModelError, tr, db)
      | Some content \<Rightarrow>
     (case find is_text content of
        Some (TextBlock text) \<Rightarrow>
          (case JSON_parse (clean_text text) of
             None \<Rightarrow> (Inl JsonSyntaxError, tr, db)
           | Some identification \<Rightarrow>
               (case store_add e db
                       ([(''userId'', userId)] @ extra @
                        [(''imageUrl'', imageDownloadUrl),
                         (''identification'', Some identification),
                         (''catchDetails'', catchDetails),
                         (''timestamp'', Some (JTimestamp (now e)))]) of
                  None \<Rightarrow> (Inl StoreError, tr @ [StoreAdd], db)
                | Some (catchId, db') \<Rightarrow>
                    (Inr (Response 200 (JsonBody (JObj (json_object
                            [(''id'', Some (JStr catchId)),
                             (''identification'', Some identification),
                             (''catchDetails'', catchDetails)])))),
                     tr @ [StoreAdd], db')))
      | _ \<Rightarrow> (Inl NoTextResponse, tr, db))))))"

definition catch_block :: "(failure + response) \<times> call list \<times> collection \<Rightarrow> response \<times> call list \<times> collection" where
  "catch_block r =
     (case r of
        (Inl f, tr, db) \<Rightarrow> (Response 500 (FailureBody f), tr, db)
      | (Inr resp, tr, db) \<Rightarrow> (resp, tr, db))"

text \<open>The first variant: no profile lookup.\<close>

definition identifyFish :: "env \<Rightarrow> collection \<Rightarrow> request \<Rightarrow> response \<times> call list \<times> collection" where
  "identifyFish e db req =
     (if req_method req \<noteq> ''POST'' then (Response 405 (TextBody ''Method Not Allowed''), [], db)
      else
        let imageUrl = map_of (body req) ''imageUrl'';
            imageDownloadUrl = map_of (body req) ''imageDownloadUrl'';
            userId = map_of (body req) ''userId'';
            catchDetails = map_of (body req) ''catchDetails''
        in case imageUrl of
             None \<Rightarrow> (Response 400 missing_fields, [], db)
           | Some iu \<Rightarrow>
               if \<not> js_truthy iu \<or> \<not> truthy userId then (Response 400 missing_fields, [], db)
               else catch_block
                      (identify_and_store e db [] [] iu imageDownloadUrl userId catchDetails))"

text \<open>
  The enriched variant looks the caller's profile up first; a lookup that throws leaves
  the defaults \<^verbatim>\<open>"Anonymous"\<close> and \<^verbatim>\<open>null\<close>.
\<close>

definition profile_snapshot :: "user_record option \<Rightarrow> jsval \<times> jsval" where
  "profile_snapshot r =
     (case r of
        None \<Rightarrow> (JStr ''Anonymous'', JNull)
      | Some u \<Rightarrow>
          (js_or (map_option JStr (displayName u)) (JStr ''Anonymous''),
           js_or (map_option JStr (photoURL u)) JNull))"

definition identifyFish_enriched :: "env \<Rightarrow> collection \<Rightarrow> request \<Rightarrow> response \<times> call list \<times> collection" where
  "identifyFish_enriched e db req =
     (if req_method req \<noteq> ''POST'' then (Response 405 (TextBody ''Method Not Allowed''), [], db)
      else
        let imageUrl = map_of (body req) ''imageUrl'';
            imageDownloadUrl = map_of (body req) ''imageDownloadUrl'';
            userId = map_of (body req) ''userId'';
            catchDetails = map_of (body req) ''catchDetails''
        in case (imageUrl, userId) of
             (Some iu, Some uid) \<Rightarrow>
               if \<not> js_truthy iu \<or> \<not> js_truthy uid then (Response 400 missing_fields, [], db)
               else
                 (case profile_snapshot (get_user e uid) of
                    (userDisplayName, userPhotoURL) \<Rightarrow>
                      catch_block
                        (identify_and_store e db [AuthGetUser uid]
                           [(''userDisplayName'', Some (js_or (Some userDisplayName) (JStr ''Anonymous''))),
                            (''userPhotoURL'', Some (js_or (Some userPhotoURL) JNull))]
                           iu imageDownloadUrl userId catchDetails))
           | _ \<Rightarrow> (Response 400 missing_fields, [], db))"

section \<open>The backfill \<^verbatim>\<open>backfillUserInfo\<close>\<close>

text \<open>
  \<^verbatim>\<open>doc.ref.update({...})\<close> assigns the given top-level fields of the document with that
  identifier and leaves the rest of it, and every other document, as it is.
\<close>

definition set_fields :: "doc \<Rightarrow> (string \<times> jsval) list \<Rightarrow> doc" where
  "set_fields d kvs = foldl (\<lambda>d' (k, v). obj_set d' k v) d kvs"

definition update_doc :: "collection \<Rightarrow> string \<Rightarrow> (doc \<Rightarrow> doc) \<Rightarrow> collection" where
  "update_doc db i f = map (\<lambda>(j, d). if j = i then (j, f d) else (j, d)) db"

text \<open>
  The loop over the snapshot, with the collection and the two counters. Reading the
  snapshot is taken to succeed.
\<close>

fun backfill_loop :: "env \<Rightarrow> (string \<times> doc) list \<Rightarrow> collection \<times> nat \<times> nat \<Rightarrow> collection \<times> nat \<times> nat" where
  "backfill_loop e [] st = st"
| "backfill_loop e ((i, data) # docs) (db, updated, skipped) =
     (if truthy (map_of data ''userDisplayName'') \<and>
         map_of data ''userDisplayName'' \<noteq> Some (JStr ''Anonymous'')
      then backfill_loop e docs (db, updated, skipped + 1)
      else
        (case map_of data ''userId'' of
           None \<Rightarrow> backfill_loop e docs (db, updated, skipped)
         | Some uid \<Rightarrow>
             if js_truthy uid then
               (case get_user e uid of
                  Some u \<Rightarrow>
                    backfill_loop e docs
                      (update_doc db i (\<lambda>d. set_fields d
                         [(''userDisplayName'', js_or (map_option JStr (displayName u)) (JStr ''Anonymous'')),
                          (''userPhotoURL'', js_or (map_option JStr (photoURL u)) JNull)]),
                       updated + 1, skipped)
                | None \<Rightarrow> backfill_loop e docs (db, updated, skipped + 1))
             else backfill_loop e docs (db, updated, skipped)))"

datatype backfill_report = BackfillReport (n_updated: nat) (n_skipped: nat) (n_total: nat)

definition backfillUserInfo :: "env \<Rightarrow> collection \<Rightarrow> backfill_report \<times> collection" where
  "backfillUserInfo e db =
     (case backfill_loop e db (db, 0, 0) of
        (db', updated, skipped) \<Rightarrow> (BackfillReport updated skipped (length db), db'))"

section \<open>The standalone server and its \<^verbatim>\<open>identify_fish\<close> tool\<close>

record tool_request =
  tool_name :: string
  arguments :: "(string \<times> jsval) list option"

datatype tool_result = ToolOk jsval | ToolError failure

definition identify_fish_tool ::
  "env \<Rightarrow> collection \<Rightarrow> (string \<times> jsval) list \<Rightarrow> tool_result \<times> call list \<times> collection" where
  "identify_fish_tool e db args =
     (let imageUrl = map_of args ''imageUrl'';
          imageDownloadUrl = map_of args ''imageDownloadUrl'';
          userId = map_of args ''userId'';
          catchDetails = map_of args ''catchDetails''
      in case file_exists e imageUrl of
        None \<Rightarrow> (ToolError StorageError, [FileExists imageUrl], db)
      | Some False \<Rightarrow> (ToolError FileNotFound, [FileExists imageUrl], db)
      | Some True \<Rightarrow>
     (case signed_url e imageUrl of
        None \<Rightarrow> (ToolError StorageError, [FileExists imageUrl, SignedUrl imageUrl], db)
      | Some url \<Rightarrow>
     (let tr = [FileExists imageUrl, SignedUrl imageUrl, ModelCreateUrl url]
      in case model_reply e of
        None \<Rightarrow> (ToolError ModelError, tr, db)
      | Some [] \<Rightarrow> (ToolError TypeError, tr, db)
      | Some (OtherBlock k # _) \<Rightarrow> (ToolError UnexpectedResponseType, tr, db)
      | Some (TextBlock identificationText # _) \<Rightarrow>
     (case JSON_parse (extract_json identificationText) of
        None \<Rightarrow> (ToolError JsonSyntaxError, tr, db)
      | Some identification \<Rightarrow>
     (case store_add e db
             [(''userId'', userId),
              (''imageUrl'', imageDownloadUrl),
              (''identification'', Some identification),
              (''catchDetails'', Some (js_or catchDetails (JObj []))),
              (''timestamp'', Some (JTimestamp (now e)))] of
        None \<Rightarrow> (ToolError StoreError, tr @ [StoreAdd], db)
      | Some (catchId, db') \<Rightarrow>
          (ToolOk (JObj [(''success'', JBool True), (''catchId'', JStr catchId),
                         (''identification'', identification)]),
           tr @ [StoreAdd], db'))))))"

definition call_tool :: "env \<Rightarrow> collection \<Rightarrow> tool_request \<Rightarrow> tool_result \<times> call list \<times> collection" where
  "call_tool e db rq =
     (case arguments rq of
        None \<Rightarrow> (ToolError NoArguments, [], db)
      | Some args \<Rightarrow>
          if tool_name rq = ''identify_fish'' then identify_fish_tool e db args
          else (ToolError UnknownTool, [], db))"

text \<open>
  \<^verbatim>\<open>POST /api/identify-fish\<close>: the four fields of the body go to the tool (an absent one
  is left out of the arguments); a tool error is the 500, a tool result is sent back as it
  is.
\<close>

definition api_identify_fish :: "env \<Rightarrow> collection \<Rightarrow> (string \<times> jsval) list \<Rightarrow> response \<times> call list \<times> collection" where
  "api_identify_fish e db b =
     (case call_tool e db
             \<lparr>tool_name = ''identify_fish'',
              arguments = Some (json_object
                [(''imageUrl'', map_of b ''imageUrl''),
                 (''imageDownloadUrl'', map_of b ''imageDownloadUrl''),
                 (''userId'', map_of b ''userId''),
                 (''catchDetails'', map_of b ''catchDetails'')])\<rparr> of
        (ToolError f, tr, db') \<Rightarrow> (Response 500 (ErrorBody f), tr, db')
      | (ToolOk v, tr, db') \<Rightarrow> (Response 200 (JsonBody v), tr, db'))"

section \<open>The browser client\<close>

text \<open>
  Reading a property: of \<^verbatim>\<open>undefined\<close> and of \<^verbatim>\<open>null\<close> it is a \<^verbatim>\<open>TypeError\<close>, of an
  object it is the property or \<^verbatim>\<open>undefined\<close>, of any other value it is \<^verbatim>\<open>undefined\<close> for
  the names the client reads. Spreading a value that is not an object adds nothing (the
  index properties of a string or an array are left out).
\<close>

fun js_get :: "jsval option \<Rightarrow> string \<Rightarrow> failure + jsval option" where
  "js_get None k = Inl TypeError"
| "js_get (Some JNull) k = Inl TypeError"
| "js_get (Some (JObj kvs)) k = Inr (map_of kvs k)"
| "js_get (Some v) k = Inr None"

fun spread :: "jsval option \<Rightarrow> (string \<times> jsval) list" where
  "spread (Some (JObj kvs)) = kvs"
| "spread v = []"

text \<open>\<^verbatim>\<open>{ id: doc.id, ...doc.data() }\<close>\<close>

definition mk_catch :: "string \<times> doc \<Rightarrow> jsval" where
  "mk_catch p = JObj (set_fields [(''id'', JStr (fst p))] (snd p))"

text \<open>
  The two queries: \<^verbatim>\<open>where("userId", "==", userId), orderBy("timestamp", "desc")\<close> and
  \<^verbatim>\<open>orderBy("timestamp", "desc")\<close> alone. A document without the field it is ordered by is
  not in the result. The order among equal timestamps, and of values that are not
  timestamps (no writer stores one), is not modelled.
\<close>

definition timestamp_key :: "string \<times> doc \<Rightarrow> nat" where
  "timestamp_key p = (case map_of (snd p) ''timestamp'' of Some (JTimestamp t) \<Rightarrow> t | _ \<Rightarrow> 0)"

definition order_by_timestamp_desc :: "collection \<Rightarrow> collection" where
  "order_by_timestamp_desc db =
     rev (sort_key timestamp_key (filter (\<lambda>p. map_of (snd p) ''timestamp'' \<noteq> None) db))"

definition list_user :: "collection \<Rightarrow> string \<Rightarrow> collection" where
  "list_user db uid =
     order_by_timestamp_desc (filter (\<lambda>p. map_of (snd p) ''userId'' = Some (JStr uid)) db)"

definition list_all :: "collection \<Rightarrow> collection" where
  "list_all db = order_by_timestamp_desc db"

record edited_details =
  ed_location :: jsval
  ed_method :: jsval
  ed_notes :: jsval
  ed_commonName :: jsval
  ed_scientificName :: jsval

datatype tab = MyCatches | Community

text \<open>The state of the \<^verbatim>\<open>App\<close> component the handlers read and write; \<open>user\<close> is the uid.\<close>

record client_state =
  user :: "string option"
  catches :: "jsval list"
  communityCatches :: "jsval list"
  selectedCatch :: "jsval option"
  isEditing :: bool
  editedDetails :: edited_details
  activeTab :: tab
  selectedUserFilter :: string

definition loadCatches :: "collection \<Rightarrow> string \<Rightarrow> client_state \<Rightarrow> client_state" where
  "loadCatches db userId s = s\<lparr>catches := map mk_catch (list_user db userId)\<rparr>"

definition loadCommunityCatches :: "collection \<Rightarrow> client_state \<Rightarrow> client_state" where
  "loadCommunityCatches db s = s\<lparr>communityCatches := map mk_catch (list_all db)\<rparr>"

definition isOwnCatch :: "client_state \<Rightarrow> jsval \<Rightarrow> bool" where
  "isOwnCatch s c =
     (case user s of
        None \<Rightarrow> False
      | Some uid \<Rightarrow> js_get (Some c) ''userId'' = Inr (Some (JStr uid)))"

text \<open>
  \<^verbatim>\<open>handleEditCatch\<close>: the five inputs start from the selected catch, an absent or falsy
  value as the empty string. A \<^verbatim>\<open>TypeError\<close> while reading leaves the state as it is.
\<close>

definition handleEditCatch :: "client_state \<Rightarrow> client_state" where
  "handleEditCatch s =
     (case selectedCatch s of
        None \<Rightarrow> s
      | Some c \<Rightarrow>
          (case (js_get (Some c) ''catchDetails'', js_get (Some c) ''identification'') of
             (Inr cd, Inr ident) \<Rightarrow>
               (case (js_get cd ''location'', js_get cd ''method'', js_get cd ''notes'',
                      js_get ident ''commonName'', js_get ident ''scientificName'') of
                  (Inr l, Inr m, Inr n, Inr cn, Inr sn) \<Rightarrow>
                    s\<lparr>editedDetails :=
                        \<lparr>ed_location = js_or l (JStr []), ed_method = js_or m (JStr []),
                         ed_notes = js_or n (JStr []), ed_commonName = js_or cn (JStr []),
                         ed_scientificName = js_or sn (JStr [])\<rparr>,
                      isEditing := True\<rparr>
                | _ \<Rightarrow> s)
           | _ \<Rightarrow> s))"

text \<open>
  Typing into one of the five inputs of the edit form:
  \<^verbatim>\<open>setEditedDetails({...editedDetails, location: e.target.value})\<close> and its four siblings.
\<close>

datatype form_field = Location | Method | Notes | CommonName | ScientificName

definition type_into :: "form_field \<Rightarrow> string \<Rightarrow> client_state \<Rightarrow> client_state" where
  "type_into f v s =
     s\<lparr>editedDetails :=
         (case f of
            Location \<Rightarrow> (editedDetails s)\<lparr>ed_location := JStr v\<rparr>
          | Method \<Rightarrow> (editedDetails s)\<lparr>ed_method := JStr v\<rparr>
          | Notes \<Rightarrow> (editedDetails s)\<lparr>ed_notes := JStr v\<rparr>
          | CommonName \<Rightarrow> (editedDetails s)\<lparr>ed_commonName := JStr v\<rparr>
          | ScientificName \<Rightarrow> (editedDetails s)\<lparr>ed_scientificName := JStr v\<rparr>)\<rparr>"

text \<open>
  \<^verbatim>\<open>updateDoc\<close> with a dotted path assigns the field inside the map at the first name; a
  value there that is not a map gives way to a new map. A document that does not exist
  cannot be updated.
\<close>

definition set_path :: "string \<Rightarrow> string \<Rightarrow> jsval \<Rightarrow> doc \<Rightarrow> doc" where
  "set_path k1 k2 v d = obj_set d k1 (JObj (obj_set (spread (map_of d k1)) k2 v))"

definition edit_fields :: "edited_details \<Rightarrow> doc \<Rightarrow> doc" where
  "edit_fields ed d =
     set_path ''identification'' ''scientificName'' (ed_scientificName ed)
       (set_path ''identification'' ''commonName'' (ed_commonName ed)
         (set_path ''catchDetails'' ''notes'' (ed_notes ed)
           (set_path ''catchDetails'' ''method'' (ed_method ed)
             (set_path ''catchDetails'' ''location'' (ed_location ed) d))))"

text \<open>A field of the map stored in a field of a document; nothing when that is no map.\<close>

definition subfield :: "doc \<Rightarrow> string \<Rightarrow> string \<Rightarrow> jsval option" where
  "subfield d k1 k2 = map_of (spread (map_of d k1)) k2"

text \<open>The values the edit form starts from, for a catch read from the document.\<close>

definition form_of :: "doc \<Rightarrow> edited_details" where
  "form_of d =
     \<lparr>ed_location = js_or (subfield d ''catchDetails'' ''location'') (JStr []),
      ed_method = js_or (subfield d ''catchDetails'' ''method'') (JStr []),
      ed_notes = js_or (subfield d ''catchDetails'' ''notes'') (JStr []),
      ed_commonName = js_or (subfield d ''identification'' ''commonName'') (JStr []),
      ed_scientificName = js_or (subfield d ''identification'' ''scientificName'') (JStr [])\<rparr>"

text \<open>A property of a value that is known to be truthy (reading it cannot throw).\<close>

definition field_of :: "jsval \<Rightarrow> string \<Rightarrow> jsval option" where
  "field_of c k = (case js_get (Some c) k of Inr v \<Rightarrow> v | Inl f \<Rightarrow> None)"

text \<open>
  What the browser and the services answer to the client during one handler: the answer
  to \<^verbatim>\<open>window.confirm\<close>, whether \<^verbatim>\<open>deleteObject\<close> fails for another reason than a missing
  object, and whether the store rejects the write (\<^verbatim>\<open>updateDoc\<close>, \<^verbatim>\<open>deleteDoc\<close>).
\<close>

record client_env =
  confirm_delete :: bool
  storage_fails :: bool
  write_fails :: bool

datatype client_call = DeleteObject "jsval option" | DeleteDoc string | UpdateDoc string

text \<open>
  \<^verbatim>\<open>doc(db, "catches", selectedCatch.id)\<close> throws unless the identifier is a non-empty
  string.
\<close>

definition doc_ref :: "jsval \<Rightarrow> string option" where
  "doc_ref c = (case field_of c ''id'' of Some (JStr i) \<Rightarrow> if i = [] then None else Some i | _ \<Rightarrow> None)"

definition updated_catch :: "edited_details \<Rightarrow> jsval \<Rightarrow> jsval" where
  "updated_catch ed c =
     JObj (set_fields (spread (Some c))
       [(''catchDetails'', JObj (set_fields (spread (field_of c ''catchDetails''))
           [(''location'', ed_location ed), (''method'', ed_method ed), (''notes'', ed_notes ed)])),
        (''identification'', JObj (set_fields (spread (field_of c ''identification''))
           [(''commonName'', ed_commonName ed), (''scientificName'', ed_scientificName ed)]))])"

text \<open>
  \<^verbatim>\<open>handleSaveEdit\<close>: the guard is a selected catch and a signed-in user; the five fields
  are written to the document of the selected catch, then the local copies follow. An
  error (no such reference, a rejected write, a document that is gone) leaves the state
  and the store as they are.
\<close>

definition handleSaveEdit ::
  "client_env \<Rightarrow> client_state \<Rightarrow> collection \<Rightarrow> client_state \<times> client_call list \<times> collection" where
  "handleSaveEdit ce s db =
     (if \<not> truthy (selectedCatch s) \<or> user s = None then (s, [], db)
      else case selectedCatch s of
        None \<Rightarrow> (s, [], db)
      | Some c \<Rightarrow>
          (case doc_ref c of
             None \<Rightarrow> (s, [], db)
           | Some i \<Rightarrow>
               if write_fails ce \<or> i \<notin> fst ` set db then (s, [UpdateDoc i], db)
               else
                 (s\<lparr>selectedCatch := Some (updated_catch (editedDetails s) c),
                    catches := map (\<lambda>x. if field_of x ''id'' = Some (JStr i)
                                          then updated_catch (editedDetails s) c else x) (catches s),
                    isEditing := False\<rparr>,
                  [UpdateDoc i],
                  update_doc db i (edit_fields (editedDetails s)))))"

text \<open>
  \<^verbatim>\<open>handleDeleteCatch\<close>. The text of the confirmation reads
  \<^verbatim>\<open>selectedCatch.identification.commonName\<close> outside any \<^verbatim>\<open>try\<close>. The stored objects are
  the list of their references; removing one that is not there is the not-found error, which
  the inner \<^verbatim>\<open>catch\<close> swallows like any other.
\<close>

definition handleDeleteCatch ::
  "client_env \<Rightarrow> client_state \<Rightarrow> collection \<Rightarrow> jsval list \<Rightarrow>
   client_state \<times> client_call list \<times> collection \<times> jsval list" where
  "handleDeleteCatch ce s db assets =
     (if \<not> truthy (selectedCatch s) \<or> user s = None then (s, [], db, assets)
      else case selectedCatch s of
        None \<Rightarrow> (s, [], db, assets)
      | Some c \<Rightarrow>
          (case js_get (field_of c ''identification'') ''commonName'' of
             Inl f \<Rightarrow> (s, [], db, assets)
           | Inr name \<Rightarrow>
               if \<not> confirm_delete ce then (s, [], db, assets)
               else
                 let assets' = (if storage_fails ce then assets
                                else filter (\<lambda>a. Some a \<noteq> field_of c ''imageUrl'') assets)
                 in case doc_ref c of
                      None \<Rightarrow> (s, [DeleteObject (field_of c ''imageUrl'')], db, assets')
                    | Some i \<Rightarrow>
                        if write_fails ce
                        then (s, [DeleteObject (field_of c ''imageUrl''), DeleteDoc i], db, assets')
                        else
                          (s\<lparr>catches := filter (\<lambda>x. field_of x ''id'' \<noteq> Some (JStr i)) (catches s),
                             selectedCatch := None,
                             isEditing := False\<rparr>,
                           [DeleteObject (field_of c ''imageUrl''), DeleteDoc i],
                           filter (\<lambda>p. fst p \<noteq> i) db,
                           assets')))"

text \<open>
  What the component renders: nothing but the sign-in page without a user, the modal only
  with a selected catch; in the modal, Edit and Delete when not editing and the catch is the
  user's own, Close when not editing, Save and Cancel when editing.
\<close>

datatype control = EditButton | DeleteButton | CloseButton | SaveButton | CancelButton

definition visible :: "client_state \<Rightarrow> control \<Rightarrow> bool" where
  "visible s b =
     (case (user s, selectedCatch s) of
        (Some u, Some c) \<Rightarrow>
          js_truthy c \<and>
          (case b of
             EditButton \<Rightarrow> \<not> isEditing s \<and> isOwnCatch s c
           | DeleteButton \<Rightarrow> \<not> isEditing s \<and> isOwnCatch s c
           | CloseButton \<Rightarrow> \<not> isEditing s
           | SaveButton \<Rightarrow> isEditing s
           | CancelButton \<Rightarrow> isEditing s)
      | _ \<Rightarrow> False)"

definition displayed :: "client_state \<Rightarrow> jsval list" where
  "displayed s =
     (if activeTab s = MyCatches then catches s
      else if selectedUserFilter s = ''all'' then communityCatches s
      else filter (\<lambda>c. field_of c ''userId'' = Some (JStr (selectedUserFilter s))) (communityCatches s))"

text \<open>
  Whether the page can be rendered at all. A child of an element may be a string, a number,
  a boolean, \<^verbatim>\<open>null\<close>, \<^verbatim>\<open>undefined\<close> or an array of such; for an object React throws.
  Reading a property of \<^verbatim>\<open>undefined\<close> or \<^verbatim>\<open>null\<close>, and calling \<^verbatim>\<open>toUpperCase\<close>, \<^verbatim>\<open>charAt\<close> or
  \<^verbatim>\<open>map\<close> on a value that has no such method, is a \<^verbatim>\<open>TypeError\<close>. The component has no
  error boundary, so a render that throws takes the whole page down.
\<close>

fun child_ok :: "jsval \<Rightarrow> bool" where
  "child_ok (JArr xs) = (\<forall>x \<in> set xs. child_ok x)"
| "child_ok (JObj kvs) = False"
| "child_ok (JTimestamp t) = False"
| "child_ok JNull = True"
| "child_ok (JBool b) = True"
| "child_ok (JNum n) = True"
| "child_ok (JStr s) = True"

definition child :: "jsval option \<Rightarrow> bool" where
  "child v = (case v of None \<Rightarrow> True | Some x \<Rightarrow> child_ok x)"

definition is_string :: "jsval option \<Rightarrow> bool" where
  "is_string v = (case v of Some (JStr s) \<Rightarrow> True | _ \<Rightarrow> False)"

text \<open>
  The badge of the angler:
  \<^verbatim>\<open>userDisplayName && (userPhotoURL ? <img/> : userDisplayName.charAt(0).toUpperCase())\<close>,
  followed by the name as a child.
\<close>

definition angler_renders :: "jsval \<Rightarrow> bool" where
  "angler_renders c =
     (let name = field_of c ''userDisplayName''
      in \<not> truthy name \<or>
         ((truthy (field_of c ''userPhotoURL'') \<or> is_string name) \<and> child name))"

text \<open>
  One card of the gallery. \<^verbatim>\<open>catch_.identification.confidence.toUpperCase()\<close> needs an
  identification that is neither \<^verbatim>\<open>undefined\<close> nor \<^verbatim>\<open>null\<close> and a confidence that is a
  string; the two names are children; the badge of the angler is part of the card in the
  Community tab; location, method and notes are children when they are truthy (and
  harmless when they are not).
\<close>

definition card_renders :: "tab \<Rightarrow> jsval \<Rightarrow> bool" where
  "card_renders t c =
     (case (js_get (field_of c ''identification'') ''confidence'',
            js_get (field_of c ''catchDetails'') ''location'') of
        (Inr confidence, Inr location) \<Rightarrow>
            is_string confidence
          \<and> child (subfield (spread (Some c)) ''identification'' ''commonName'')
          \<and> child (subfield (spread (Some c)) ''identification'' ''scientificName'')
          \<and> (t = Community \<longrightarrow> angler_renders c)
          \<and> child location
          \<and> child (subfield (spread (Some c)) ''catchDetails'' ''method'')
          \<and> child (subfield (spread (Some c)) ''catchDetails'' ''notes'')
      | _ \<Rightarrow> False)"

text \<open>
  \<^verbatim>\<open>characteristics && characteristics.length > 0 && characteristics.map(...)\<close>: an array is
  mapped, each element a child; a non-empty string has a length and no \<^verbatim>\<open>map\<close>; a number, a
  boolean and a timestamp have no length. For an object the comparison reads its field
  \<^verbatim>\<open>length\<close>, taken here to be positive for \<^verbatim>\<open>true\<close> and for a number above zero only (a text
  or an array there is not converted to a number).
\<close>

definition positive :: "jsval option \<Rightarrow> bool" where
  "positive v =
     (case v of
        Some (JBool b) \<Rightarrow> b
      | Some (JNum n) \<Rightarrow> num_nonzero n \<and> \<not> starts_with ''-'' n
      | _ \<Rightarrow> False)"

definition characteristics_render :: "jsval option \<Rightarrow> bool" where
  "characteristics_render v =
     (case v of
        Some (JArr xs) \<Rightarrow> (\<forall>x \<in> set xs. child_ok x)
      | Some (JStr s) \<Rightarrow> s = []
      | Some (JObj kvs) \<Rightarrow> \<not> positive (map_of kvs ''length'')
      | _ \<Rightarrow> True)"

text \<open>
  The modal of the selected catch. The confidence is rendered as on the card, and
  \<^verbatim>\<open>selectedCatch.catchDetails.date\<close> is read, in both modes; names, family, the badge of the
  angler, location and method are rendered only when not editing (the notes go through a
  template string); the rest of the identification is rendered in both modes.
\<close>

definition modal_renders :: "bool \<Rightarrow> jsval \<Rightarrow> bool" where
  "modal_renders editing c =
     (case (js_get (field_of c ''identification'') ''confidence'',
            js_get (field_of c ''catchDetails'') ''date'') of
        (Inr confidence, Inr date) \<Rightarrow>
            is_string confidence
          \<and> (editing \<or>
                (child (subfield (spread (Some c)) ''identification'' ''commonName'')
                 \<and> child (subfield (spread (Some c)) ''identification'' ''scientificName'')
                 \<and> child (subfield (spread (Some c)) ''identification'' ''family'')
                 \<and> angler_renders c
                 \<and> child (subfield (spread (Some c)) ''catchDetails'' ''location'')
                 \<and> child (subfield (spread (Some c)) ''catchDetails'' ''method'')))
          \<and> child (subfield (spread (Some c)) ''identification'' ''averageSize'')
          \<and> child (subfield (spread (Some c)) ''identification'' ''habitat'')
          \<and> characteristics_render (subfield (spread (Some c)) ''identification'' ''characteristics'')
          \<and> child (subfield (spread (Some c)) ''identification'' ''notes'')
      | _ \<Rightarrow> False)"

text \<open>
  \<^verbatim>\<open>uniqueUsers\<close>: the anglers of the community list, one entry for each \<^verbatim>\<open>userId\<close> (compared
  with \<^verbatim>\<open>===\<close>, which is false for two arrays or objects of different catches), for the catches
  with a truthy \<^verbatim>\<open>userId\<close> and a truthy \<^verbatim>\<open>userDisplayName\<close>. Each name is the child of an
  option of the filter in the Community tab.
\<close>

definition primitive :: "jsval \<Rightarrow> bool" where
  "primitive v = (case v of JArr xs \<Rightarrow> False | JObj kvs \<Rightarrow> False | JTimestamp t \<Rightarrow> False | _ \<Rightarrow> True)"

definition uniqueUsers :: "jsval list \<Rightarrow> (jsval \<times> jsval) list" where
  "uniqueUsers cs =
     foldl (\<lambda>acc c.
              case (field_of c ''userId'', field_of c ''userDisplayName'') of
                (Some uid, Some name) \<Rightarrow>
                  if js_truthy uid \<and> js_truthy name \<and> \<not> (\<exists>u \<in> set acc. fst u = uid \<and> primitive uid)
                  then acc @ [(uid, name)] else acc
              | _ \<Rightarrow> acc)
           [] cs"

definition renders :: "client_state \<Rightarrow> bool" where
  "renders s =
     (user s = None \<or>
        ((\<forall>c \<in> set (displayed s). card_renders (activeTab s) c)
         \<and> (activeTab s = Community \<longrightarrow> (\<forall>u \<in> set (uniqueUsers (communityCatches s)). child_ok (snd u)))
         \<and> (case selectedCatch s of None \<Rightarrow> True | Some c \<Rightarrow> modal_renders (isEditing s) c)))"

text \<open>
  \<^verbatim>\<open>handleCancelEdit\<close> leaves the edit mode first and then resets the form; a
  \<^verbatim>\<open>TypeError\<close> while reading the selected catch leaves the form as it is.
\<close>

definition handleCancelEdit :: "client_state \<Rightarrow> client_state" where
  "handleCancelEdit s =
     (case selectedCatch s of
        None \<Rightarrow>
          s\<lparr>isEditing := False,
            editedDetails := \<lparr>ed_location = JStr [], ed_method = JStr [], ed_notes = JStr [],
                              ed_commonName = JStr [], ed_scientificName = JStr []\<rparr>\<rparr>
      | Some c \<Rightarrow>
          (case (js_get (field_of c ''catchDetails'') ''location'',
                 js_get (field_of c ''catchDetails'') ''method'',
                 js_get (field_of c ''catchDetails'') ''notes'',
                 js_get (field_of c ''identification'') ''commonName'',
                 js_get (field_of c ''identification'') ''scientificName'') of
             (Inr l, Inr m, Inr n, Inr cn, Inr sn) \<Rightarrow>
               s\<lparr>isEditing := False,
                 editedDetails :=
                   \<lparr>ed_location = js_or l (JStr []), ed_method = js_or m (JStr []),
                    ed_notes = js_or n (JStr []), ed_commonName = js_or cn (JStr []),
                    ed_scientificName = js_or sn (JStr [])\<rparr>\<rparr>
           | _ \<Rightarrow> s\<lparr>isEditing := False\<rparr>))"

text \<open>
  The events of the page that select, edit and delete a catch, and what they do to the
  client state and the two stores (the upload of a new catch, which calls the cloud
  function and reloads both lists, is not among them). Nothing happens on a page that
  could not be rendered, and a click on a control that is not rendered does nothing.
  \<open>AuthStateChanged\<close> is the listener of \<^verbatim>\<open>onAuthStateChanged\<close>: it sets the user and, for a
  user, reloads both lists. \<open>SignOutClicked\<close> is \<^verbatim>\<open>handleSignOut\<close>: the user is gone and the
  list of the own catches is emptied. A click on a tab sets the active tab;
  \<open>AnglerSelected\<close> sets the filter of the Community tab to \<^verbatim>\<open>all\<close> or to the identifier (a
  string) of one of its anglers; a click on a card selects that catch, a click on the
  backdrop of the modal closes it.
\<close>

datatype event =
    AuthStateChanged "string option"
  | SignOutClicked
  | TabClicked tab
  | AnglerSelected string
  | CardClicked jsval
  | BackdropClicked
  | Clicked control
  | Typed form_field string

definition dispatch ::
  "client_env \<Rightarrow> event \<Rightarrow> client_state \<times> collection \<times> jsval list \<Rightarrow> client_state \<times> collection \<times> jsval list" where
  "dispatch ce ev w =
     (case w of (s, db, assets) \<Rightarrow>
        if \<not> renders s then w
        else
          (case ev of
             AuthStateChanged u \<Rightarrow>
               (case u of
                  None \<Rightarrow> (s\<lparr>user := None\<rparr>, db, assets)
                | Some uid \<Rightarrow> (loadCommunityCatches db (loadCatches db uid (s\<lparr>user := Some uid\<rparr>)), db, assets))
           | SignOutClicked \<Rightarrow>
               if user s = None then w else (s\<lparr>user := None, catches := []\<rparr>, db, assets)
           | TabClicked t \<Rightarrow>
               if user s = None then w else (s\<lparr>activeTab := t\<rparr>, db, assets)
           | AnglerSelected v \<Rightarrow>
               if user s \<noteq> None \<and> activeTab s = Community
                  \<and> (v = ''all'' \<or> JStr v \<in> fst ` set (uniqueUsers (communityCatches s)))
               then (s\<lparr>selectedUserFilter := v\<rparr>, db, assets)
               else w
           | CardClicked c \<Rightarrow>
               if user s \<noteq> None \<and> c \<in> set (displayed s)
               then (s\<lparr>selectedCatch := Some c, isEditing := False\<rparr>, db, assets)
               else w
           | BackdropClicked \<Rightarrow>
               if user s \<noteq> None \<and> selectedCatch s \<noteq> None
               then (s\<lparr>selectedCatch := None, isEditing := False\<rparr>, db, assets)
               else w
           | Typed f v \<Rightarrow>
               if visible s SaveButton then (type_into f v s, db, assets) else w
           | Clicked b \<Rightarrow>
               if \<not> visible s b then w
               else
                 (case b of
                    EditButton \<Rightarrow> (handleEditCatch s, db, assets)
                  | DeleteButton \<Rightarrow>
                      (case handleDeleteCatch ce s db assets of (s', tr, db', assets') \<Rightarrow> (s', db', assets'))
                  | CloseButton \<Rightarrow> (s\<lparr>selectedCatch := None, isEditing := False\<rparr>, db, assets)
                  | SaveButton \<Rightarrow>
                      (case handleSaveEdit ce s db of (s', tr, db') \<Rightarrow> (s', db', assets))
                  | CancelButton \<Rightarrow> (handleCancelEdit s, db, assets))))"

definition run :: "client_env \<Rightarrow> event list \<Rightarrow> client_state \<times> collection \<times> jsval list \<Rightarrow> client_state \<times> collection \<times> jsval list" where
  "run ce evs w = foldl (\<lambda>w' ev. dispatch ce ev w') w evs"

text \<open>
  The edit form was opened by the owner: while it is open, a catch is selected and the uid
  of the signed-in user is its \<^verbatim>\<open>userId\<close>. An event changes the user when it is the listener
  of the authentication state or the sign-out.
\<close>

definition opened_by_owner :: "client_state \<Rightarrow> bool" where
  "opened_by_owner s =
     (isEditing s \<longrightarrow> (case selectedCatch s of None \<Rightarrow> False | Some c \<Rightarrow> isOwnCatch s c))"

fun changes_user :: "event \<Rightarrow> bool" where
  "changes_user (AuthStateChanged u) = True"
| "changes_user SignOutClicked = True"
| "changes_user ev = False"

section \<open>The writes to the collection\<close>

text \<open>
  Every operation of the sources that writes to the \<^verbatim>\<open>catches\<close> collection, with what it
  needs from outside, and its effect on the collection.
\<close>

datatype operation =
    Identify env request
  | IdentifyEnriched env request
  | IdentifyStandalone env "(string \<times> jsval) list"
  | Backfill env
  | SaveEdit client_env client_state
  | DeleteCatch client_env client_state "jsval list"

fun apply_operation :: "operation \<Rightarrow> collection \<Rightarrow> collection" where
  "apply_operation (Identify e req) db = snd (snd (identifyFish e db req))"
| "apply_operation (IdentifyEnriched e req) db = snd (snd (identifyFish_enriched e db req))"
| "apply_operation (IdentifyStandalone e b) db = snd (snd (api_identify_fish e db b))"
| "apply_operation (Backfill e) db = snd (backfillUserInfo e db)"
| "apply_operation (SaveEdit ce s) db = snd (snd (handleSaveEdit ce s db))"
| "apply_operation (DeleteCatch ce s assets) db = fst (snd (snd (handleDeleteCatch ce s db assets)))"

text \<open>
  The difference the edit and the backfill may make to a document. At the top level only
  \<^verbatim>\<open>catchDetails\<close>, \<^verbatim>\<open>identification\<close> and the two profile fields may differ. A value of
  \<^verbatim>\<open>catchDetails\<close> is as before or a map that agrees with the map before outside the three
  editable fields; before, a value that is no map counts as the empty map, as the dotted
  paths of \<^verbatim>\<open>updateDoc\<close> replace it by a map of the fields they assign. The same holds for
  \<^verbatim>\<open>identification\<close> and the two names.
\<close>

definition same_outside :: "string list \<Rightarrow> (string \<times> jsval) list \<Rightarrow> (string \<times> jsval) list \<Rightarrow> bool" where
  "same_outside ks m m' = (\<forall>k \<in> set (map fst m @ map fst m'). k \<notin> set ks \<longrightarrow> map_of m' k = map_of m k)"

definition map_changed :: "string list \<Rightarrow> jsval option \<Rightarrow> jsval option \<Rightarrow> bool" where
  "map_changed ks old new =
     (new = old \<or> (case new of Some (JObj m') \<Rightarrow> same_outside ks (spread old) m' | _ \<Rightarrow> False))"

definition permitted_change :: "doc \<Rightarrow> doc \<Rightarrow> bool" where
  "permitted_change d d' =
     (same_outside [''catchDetails'', ''identification'', ''userDisplayName'', ''userPhotoURL''] d d'
      \<and> map_changed [''location'', ''method'', ''notes'']
           (map_of d ''catchDetails'') (map_of d' ''catchDetails'')
      \<and> map_changed [''commonName'', ''scientificName'']
           (map_of d ''identification'') (map_of d' ''identification''))"

section \<open>Sample data\<close>

text \<open>
  A request as the client sends it, an answer of the model in a fenced block and one in
  prose, and an outside world in which every call succeeds except the profile lookup.
\<close>

definition sample_request :: request where
  "sample_request =
     \<lparr>req_method = ''POST'',
      body = [(''imageUrl'', JStr ''catches/u1/123_fish.jpg''),
              (''imageDownloadUrl'', JStr ''https://storage.example/123_fish.jpg''),
              (''userId'', JStr ''u1''),
              (''catchDetails'', JObj [(''location'', JStr ''Lake''), (''date'', JStr ''2025-01-01'')])]\<rparr>"

definition fenced_answer :: string where
  \<open>fenced_answer = ''```json'' @ [CHR 0x0A] @ ''{"commonName":"Bass"}'' @ [CHR 0x0A] @ ''```''\<close>

definition prose_answer :: string where
  "prose_answer = ''I cannot identify this fish.''"

definition broken_answer :: string where
  "broken_answer = ''Sure, here: {commonName: Bass}''"

definition sample_env :: env where
  "sample_env =
     \<lparr>get_user = (\<lambda>u. None),
      download = (\<lambda>k. Some ''original''),
      resize = (\<lambda>b. Some ''resized''),
      file_exists = (\<lambda>k. Some True),
      signed_url = (\<lambda>k. Some ''https://signed.example''),
      model_reply = Some [TextBlock fenced_answer],
      new_id = ''c1'',
      now = 7\<rparr>"

text \<open>
  A collection of two catches: one of user \<^verbatim>\<open>u1\<close>, written by the first variant of the cloud
  function, and one of user \<^verbatim>\<open>u2\<close> with a display name and an identification that holds
  a confidence and no name (the answer of the model is stored without a check of its
  fields). In \<open>profile_env\<close> the profile lookup succeeds.
\<close>

definition sample_doc1 :: doc where
  "sample_doc1 =
     [(''userId'', JStr ''u1''),
      (''imageUrl'', JStr ''https://storage.example/1_bass.jpg''),
      (''identification'', JObj [(''commonName'', JStr ''Bass''),
                                 (''scientificName'', JStr ''Micropterus''),
                                 (''confidence'', JStr ''high'')]),
      (''catchDetails'', JObj [(''location'', JStr ''Lake''), (''date'', JStr ''2025-01-01'')]),
      (''timestamp'', JTimestamp 1)]"

definition sample_doc2 :: doc where
  "sample_doc2 =
     [(''userId'', JStr ''u2''),
      (''userDisplayName'', JStr ''Bob''),
      (''userPhotoURL'', JNull),
      (''imageUrl'', JStr ''https://storage.example/2_pike.jpg''),
      (''identification'', JObj [(''confidence'', JStr ''low'')]),
      (''catchDetails'', JObj [(''location'', JStr ''Pond'')]),
      (''timestamp'', JTimestamp 2)]"

definition sample_db :: collection where
  "sample_db = [(''c1'', sample_doc1), (''c2'', sample_doc2)]"

definition profile_env :: env where
  "profile_env = sample_env\<lparr>get_user := \<lambda>u. Some \<lparr>displayName = Some ''Ann'', photoURL = None\<rparr>\<rparr>"

text \<open>The page before anyone has signed in, and a browser in which nothing fails.\<close>

definition initial_state :: client_state where
  "initial_state =
     \<lparr>user = None, catches = [], communityCatches = [], selectedCatch = None,
      isEditing = False,
      editedDetails = \<lparr>ed_location = JStr [], ed_method = JStr [], ed_notes = JStr [],
                       ed_commonName = JStr [], ed_scientificName = JStr []\<rparr>,
      activeTab = MyCatches, selectedUserFilter = ''all''\<rparr>"

definition sample_client_env :: client_env where
  "sample_client_env = \<lparr>confirm_delete = True, storage_fails = False, write_fails = False\<rparr>"

text \<open>The page of user \<^verbatim>\<open>u1\<close>, who has signed in and opened the first catch.\<close>

definition view_of_u1 :: client_state where
  "view_of_u1 =
     fst (run sample_client_env
            [AuthStateChanged (Some ''u1''), CardClicked (mk_catch (''c1'', sample_doc1))]
            (initial_state, sample_db, []))"

text \<open>The same page with the edit form open and a new location typed.\<close>

definition editing_u1 :: client_state where
  "editing_u1 =
     fst (run sample_client_env [Clicked EditButton, Typed Location ''River'']
            (view_of_u1, sample_db, []))"

section \<open>Claims\<close>

subsection \<open>Required fields\<close>

lemma truthy_Some [simp]: "truthy (Some v) = js_truthy v"
  by (simp add: truthy_def)

lemma truthy_None [simp]: "truthy None = False"
  by (simp add: truthy_def)

text \<open>
  C3: an identify request to the cloud function (either variant) in which the image key
  or the user id is absent (or falsy) makes no external call and leaves the store as it is,
  whatever the method; a \<^verbatim>\<open>POST\<close> is answered with 400 and the fixed message
  \<^verbatim>\<open>{error: "Missing required fields"}\<close>.
\<close>

theorem missing_field_is_400_without_calls:
  assumes "\<not> truthy (map_of (body req) ''imageUrl'') \<or> \<not> truthy (map_of (body req) ''userId'')"
  shows "snd (identifyFish e db req) = ([], db)
       \<and> snd (identifyFish_enriched e db req) = ([], db)
       \<and> (req_method req = ''POST'' \<longrightarrow>
            fst (identifyFish e db req)
              = Response 400 (JsonBody (JObj [(''error'', JStr ''Missing required fields'')]))
          \<and> fst (identifyFish_enriched e db req)
              = Response 400 (JsonBody (JObj [(''error'', JStr ''Missing required fields'')])))"
proof -
  have a: "snd (identifyFish e db req) = ([], db)"
    using assms by (auto simp: identifyFish_def Let_def split: option.splits)
  have b: "snd (identifyFish_enriched e db req) = ([], db)"
    using assms by (auto simp: identifyFish_enriched_def Let_def split: option.splits)
  have c: "fst (identifyFish e db req) = Response 400 missing_fields" if "req_method req = ''POST''"
    using assms that by (auto simp: identifyFish_def Let_def split: option.splits)
  have d: "fst (identifyFish_enriched e db req) = Response 400 missing_fields" if "req_method req = ''POST''"
    using assms that by (auto simp: identifyFish_enriched_def Let_def split: option.splits)
  from a b c d show ?thesis by (simp add: missing_fields_def)
qed

theorem missing_field_is_400_without_calls_witness:
  "snd (identifyFish sample_env [] \<lparr>req_method = ''POST'', body = [(''imageUrl'', JStr ''catches/u1/1_fish.jpg'')]\<rparr>) = ([], [])
   \<and> fst (identifyFish_enriched sample_env [] \<lparr>req_method = ''POST'', body = [(''imageUrl'', JStr ''catches/u1/1_fish.jpg'')]\<rparr>)
       = Response 400 (JsonBody (JObj [(''error'', JStr ''Missing required fields'')]))"
  using missing_field_is_400_without_calls
    [of "\<lparr>req_method = ''POST'', body = [(''imageUrl'', JStr ''catches/u1/1_fish.jpg'')]\<rparr>" sample_env "[]"]
  by simp

subsection \<open>Answers of the model that do not parse\<close>

lemma identify_and_store_parse_failure:
  assumes "model_reply e = Some content"
      and "find is_text content = Some (TextBlock t)"
      and "JSON_parse (clean_text t) = None"
      and "\<forall>m b. ModelCreate m b \<notin> set tr0"
  shows "\<exists>f tr. identify_and_store e db tr0 extra iu idu uid cd = (Inl f, tr, db)
               \<and> ((\<exists>m b. ModelCreate m b \<in> set tr) \<longrightarrow> f = JsonSyntaxError)"
  using assms
  by (auto simp: identify_and_store_def Let_def split: option.splits)

definition refused :: "(failure \<Rightarrow> body) \<Rightarrow> collection \<Rightarrow> response \<times> call list \<times> collection \<Rightarrow> bool" where
  "refused wrap db r =
     (status (fst r) \<noteq> 200 \<and> snd (snd r) = db \<and>
      ((\<exists>m b. ModelCreate m b \<in> set (fst (snd r))) \<or> (\<exists>u. ModelCreateUrl u \<in> set (fst (snd r)))
         \<longrightarrow> fst r = Response 500 (wrap JsonSyntaxError)))"

lemma identifyFish_parse_failure:
  assumes "model_reply e = Some content"
      and "find is_text content = Some (TextBlock t)"
      and "JSON_parse (clean_text t) = None"
  shows "refused FailureBody db (identifyFish e db req)"
proof (cases "req_method req = ''POST'' \<and> truthy (map_of (body req) ''imageUrl'')
              \<and> truthy (map_of (body req) ''userId'')")
  case True
  then obtain iu where iu: "map_of (body req) ''imageUrl'' = Some iu" "js_truthy iu"
    by (cases "map_of (body req) ''imageUrl''") auto
  from identify_and_store_parse_failure [OF assms, of "[]" db "[]" iu
      "map_of (body req) ''imageDownloadUrl''" "map_of (body req) ''userId''"
      "map_of (body req) ''catchDetails''"]
  obtain f tr where
    "identify_and_store e db [] [] iu (map_of (body req) ''imageDownloadUrl'')
       (map_of (body req) ''userId'') (map_of (body req) ''catchDetails'') = (Inl f, tr, db)"
    "(\<exists>m b. ModelCreate m b \<in> set tr) \<longrightarrow> f = JsonSyntaxError"
    by auto
  moreover have "\<forall>u. ModelCreateUrl u \<notin> set tr"
    using calculation(1)
    by (auto simp: identify_and_store_def Let_def split: option.splits block.splits)
  ultimately show ?thesis
    using True iu by (auto simp: refused_def identifyFish_def Let_def catch_block_def)
next
  case False
  then show ?thesis
    by (auto simp: refused_def identifyFish_def Let_def missing_fields_def split: option.splits)
qed

lemma identifyFish_enriched_parse_failure:
  assumes "model_reply e = Some content"
      and "find is_text content = Some (TextBlock t)"
      and "JSON_parse (clean_text t) = None"
  shows "refused FailureBody db (identifyFish_enriched e db req)"
proof (cases "req_method req = ''POST'' \<and> truthy (map_of (body req) ''imageUrl'')
              \<and> truthy (map_of (body req) ''userId'')")
  case True
  then obtain iu uid where iu: "map_of (body req) ''imageUrl'' = Some iu" "js_truthy iu"
      and uid: "map_of (body req) ''userId'' = Some uid" "js_truthy uid"
    by (cases "map_of (body req) ''imageUrl''"; cases "map_of (body req) ''userId''") auto
  obtain dn ph where ps: "profile_snapshot (get_user e uid) = (dn, ph)"
    by (cases "profile_snapshot (get_user e uid)") auto
  define extra where "extra = [(''userDisplayName'', Some (js_or (Some dn) (JStr ''Anonymous''))),
                            (''userPhotoURL'', Some (js_or (Some ph) JNull))]"
  have "\<forall>m b. ModelCreate m b \<notin> set [AuthGetUser uid]" by simp
  from identify_and_store_parse_failure [OF assms this, of db extra iu
      "map_of (body req) ''imageDownloadUrl''" "Some uid" "map_of (body req) ''catchDetails''"]
  obtain f tr where
    r: "identify_and_store e db [AuthGetUser uid] extra iu (map_of (body req) ''imageDownloadUrl'')
       (Some uid) (map_of (body req) ''catchDetails'') = (Inl f, tr, db)"
    "(\<exists>m b. ModelCreate m b \<in> set tr) \<longrightarrow> f = JsonSyntaxError"
    by auto
  have "\<forall>u. ModelCreateUrl u \<notin> set tr"
    using r(1)
    by (auto simp: identify_and_store_def Let_def split: option.splits block.splits)
  with r show ?thesis
    using True iu uid ps
    by (auto simp: refused_def identifyFish_enriched_def Let_def catch_block_def extra_def)
next
  case False
  then show ?thesis
    by (auto simp: refused_def identifyFish_enriched_def Let_def missing_fields_def
             split: option.splits)
qed

lemma identify_fish_tool_parse_failure:
  assumes "model_reply e = Some (TextBlock t # rest)"
      and "JSON_parse (extract_json t) = None"
  shows "\<exists>f tr. identify_fish_tool e db args = (ToolError f, tr, db)
               \<and> (\<forall>m b. ModelCreate m b \<notin> set tr)
               \<and> ((\<exists>u. ModelCreateUrl u \<in> set tr) \<longrightarrow> f = JsonSyntaxError)"
  using assms
  by (auto simp: identify_fish_tool_def Let_def split: option.splits bool.splits)

lemma api_identify_fish_parse_failure:
  assumes "model_reply e = Some (TextBlock t # rest)"
      and "JSON_parse (extract_json t) = None"
  shows "refused ErrorBody db (api_identify_fish e db b)"
proof -
  from identify_fish_tool_parse_failure [OF assms]
  obtain f tr where
    "identify_fish_tool e db (json_object
                [(''imageUrl'', map_of b ''imageUrl''),
                 (''imageDownloadUrl'', map_of b ''imageDownloadUrl''),
                 (''userId'', map_of b ''userId''),
                 (''catchDetails'', map_of b ''catchDetails'')]) = (ToolError f, tr, db)"
    "\<forall>m b. ModelCreate m b \<notin> set tr"
    "(\<exists>u. ModelCreateUrl u \<in> set tr) \<longrightarrow> f = JsonSyntaxError"
    by blast
  then show ?thesis
    by (auto simp: refused_def api_identify_fish_def call_tool_def)
qed

lemma api_identify_fish_no_braces:
  assumes "model_reply e = Some (TextBlock t # rest)"
      and "brace_match t = None"
  shows "api_identify_fish e db b = api_identify_fish (e\<lparr>model_reply := Some (TextBlock ''{}'' # rest)\<rparr>) db b"
proof -
  have "brace_match ''{}'' = Some ''{}''" by (simp add: brace_match_def)
  then have x: "extract_json t = extract_json ''{}''"
    using assms(2) by (simp add: extract_json_def)
  have "identify_fish_tool e db args
      = identify_fish_tool (e\<lparr>model_reply := Some (TextBlock ''{}'' # rest)\<rparr>) db args" for args
    using assms(1) x
    by (auto simp: identify_fish_tool_def Let_def store_add_def split: option.splits bool.splits)
  then show ?thesis
    by (simp add: api_identify_fish_def call_tool_def)
qed

text \<open>
  C1, as the code has it: when the text that goes to \<^verbatim>\<open>JSON.parse\<close> (after the cleanup of
  the variant) is not valid JSON, the request is refused: the answer is not a 200, the
  store is as before, and once the model has been called the answer is the 500 of the
  syntax error. This holds for both variants of the cloud function and for the standalone
  server. In the standalone server an answer with no brace-delimited span is, by the
  \<^verbatim>\<open>|| "{}"\<close> of the source, handled exactly as the answer \<^verbatim>\<open>{}\<close>.
\<close>

theorem unparsable_answer_refused:
  assumes "model_reply e = Some content"
  shows "(find is_text content = Some (TextBlock t) \<and> JSON_parse (clean_text t) = None \<longrightarrow>
            refused FailureBody db (identifyFish e db req)
          \<and> refused FailureBody db (identifyFish_enriched e db req))
       \<and> (content = TextBlock t # rest \<and> JSON_parse (extract_json t) = None \<longrightarrow>
            refused ErrorBody db (api_identify_fish e db b))
       \<and> (content = TextBlock t # rest \<and> brace_match t = None \<longrightarrow>
            api_identify_fish e db b
              = api_identify_fish (e\<lparr>model_reply := Some (TextBlock ''{}'' # rest)\<rparr>) db b)"
proof (intro conjI impI)
  assume "find is_text content = Some (TextBlock t) \<and> JSON_parse (clean_text t) = None"
  with assms show "refused FailureBody db (identifyFish e db req)"
    by (simp add: identifyFish_parse_failure)
next
  assume "find is_text content = Some (TextBlock t) \<and> JSON_parse (clean_text t) = None"
  with assms show "refused FailureBody db (identifyFish_enriched e db req)"
    by (simp add: identifyFish_enriched_parse_failure)
next
  assume "content = TextBlock t # rest \<and> JSON_parse (extract_json t) = None"
  with assms show "refused ErrorBody db (api_identify_fish e db b)"
    by (simp add: api_identify_fish_parse_failure)
next
  assume "content = TextBlock t # rest \<and> brace_match t = None"
  with assms show "api_identify_fish e db b
      = api_identify_fish (e\<lparr>model_reply := Some (TextBlock ''{}'' # rest)\<rparr>) db b"
    by (simp add: api_identify_fish_no_braces)
qed

theorem unparsable_answer_refused_witness:
  "JSON_parse (clean_text broken_answer) = None
   \<and> JSON_parse (extract_json broken_answer) = None
   \<and> refused FailureBody [] (identifyFish (sample_env\<lparr>model_reply := Some [TextBlock broken_answer]\<rparr>) [] sample_request)
   \<and> refused FailureBody [] (identifyFish_enriched (sample_env\<lparr>model_reply := Some [TextBlock broken_answer]\<rparr>) [] sample_request)
   \<and> refused ErrorBody [] (api_identify_fish (sample_env\<lparr>model_reply := Some [TextBlock broken_answer]\<rparr>) [] (body sample_request))
   \<and> brace_match prose_answer = None
   \<and> api_identify_fish (sample_env\<lparr>model_reply := Some [TextBlock prose_answer]\<rparr>) [] (body sample_request)
       = api_identify_fish (sample_env\<lparr>model_reply := Some [TextBlock ''{}'']\<rparr>) [] (body sample_request)"
proof -
  have a: "JSON_parse (clean_text broken_answer) = None" by code_simp
  have b: "JSON_parse (extract_json broken_answer) = None" by code_simp
  have c: "brace_match prose_answer = None" by code_simp
  have m: "model_reply (sample_env\<lparr>model_reply := Some [TextBlock x]\<rparr>) = Some [TextBlock x]" for x
    by simp
  show ?thesis
    using a b c
      unparsable_answer_refused [OF m [of broken_answer], where t = broken_answer
        and db = "[]" and req = sample_request and b = "body sample_request" and rest = "[]"]
      unparsable_answer_refused [OF m [of prose_answer], where t = prose_answer
        and db = "[]" and req = sample_request and b = "body sample_request" and rest = "[]"]
    by simp
qed

text \<open>
  C1 as stated fails on the standalone server: an answer in prose, which is no JSON, gets a
  200 and a record with an empty identification is written.
\<close>

theorem prose_answer_persisted_by_standalone_server:
  "JSON_parse prose_answer = None
   \<and> api_identify_fish (sample_env\<lparr>model_reply := Some [TextBlock prose_answer]\<rparr>) []
        (body sample_request)
     = (Response 200 (JsonBody (JObj [(''success'', JBool True), (''catchId'', JStr ''c1''),
                                      (''identification'', JObj [])])),
        [FileExists (Some (JStr ''catches/u1/123_fish.jpg'')),
         SignedUrl (Some (JStr ''catches/u1/123_fish.jpg'')),
         ModelCreateUrl ''https://signed.example'', StoreAdd],
        [(''c1'',
          [(''userId'', JStr ''u1''),
           (''imageUrl'', JStr ''https://storage.example/123_fish.jpg''),
           (''identification'', JObj []),
           (''catchDetails'', JObj [(''location'', JStr ''Lake''), (''date'', JStr ''2025-01-01'')]),
           (''timestamp'', JTimestamp 7)])])"
  by code_simp

subsection \<open>What an accepted request stores\<close>

lemma defined_fields_Some:
  "defined_fields fs = Some d \<Longrightarrow> fs = map (\<lambda>(k, v). (k, Some v)) d"
  by (induction fs arbitrary: d rule: defined_fields.induct) auto

lemma defined_fields_lookup:
  assumes "defined_fields fs = Some d"
  shows "map_of fs k = map_option Some (map_of d k)"
proof -
  have "map_of (map (\<lambda>(k, v). (k, Some v)) d) k = map_option Some (map_of d k)"
    by (induction d) auto
  with defined_fields_Some [OF assms] show ?thesis by simp
qed

text \<open>The document a successful run of the pipeline appends.\<close>

lemma identify_and_store_Inr:
  assumes "identify_and_store e db tr0 extra iu idu uid cd = (Inr resp, tr, db')"
  shows "\<exists>ident d. defined_fields ([(''userId'', uid)] @ extra @
                        [(''imageUrl'', idu),
                         (''identification'', Some ident),
                         (''catchDetails'', cd),
                         (''timestamp'', Some (JTimestamp (now e)))]) = Some d
                  \<and> db' = db @ [(new_id e, d)]"
  using assms
  by (auto simp: identify_and_store_def Let_def store_add_def split: option.splits block.splits)

lemma identify_and_store_catchDetails:
  assumes "identify_and_store e db tr0 extra iu idu uid cd = (Inr resp, tr, db')"
      and "''catchDetails'' \<notin> fst ` set extra"
  shows "\<exists>d v. db' = db @ [(new_id e, d)] \<and> cd = Some v \<and> map_of d ''catchDetails'' = Some v"
proof -
  from identify_and_store_Inr [OF assms(1)] obtain ident d where
    d: "defined_fields ([(''userId'', uid)] @ extra @
                        [(''imageUrl'', idu),
                         (''identification'', Some ident),
                         (''catchDetails'', cd),
                         (''timestamp'', Some (JTimestamp (now e)))]) = Some d"
    and db': "db' = db @ [(new_id e, d)]"
    by blast
  from assms(2) have "map_of extra ''catchDetails'' = None"
    by (simp add: map_of_eq_None_iff)
  then have "map_of ([(''userId'', uid)] @ extra @
                        [(''imageUrl'', idu),
                         (''identification'', Some ident),
                         (''catchDetails'', cd),
                         (''timestamp'', Some (JTimestamp (now e)))]) ''catchDetails'' = Some cd"
    by (simp add: map_add_def)
  with defined_fields_lookup [OF d, of "''catchDetails''"] db' show ?thesis
    by (cases "map_of d ''catchDetails''") auto
qed

lemma identifyFish_200:
  assumes "status (fst (identifyFish e db req)) = 200"
  shows "\<exists>iu resp tr.
           identify_and_store e db [] [] iu (map_of (body req) ''imageDownloadUrl'')
             (map_of (body req) ''userId'') (map_of (body req) ''catchDetails'')
           = (Inr resp, tr, snd (snd (identifyFish e db req)))"
  using assms
  by (auto simp: identifyFish_def Let_def catch_block_def
           split: option.splits if_splits sum.splits prod.splits)

lemma identifyFish_enriched_200:
  assumes "status (fst (identifyFish_enriched e db req)) = 200"
  shows "\<exists>iu uid dn ph resp tr.
           map_of (body req) ''userId'' = Some uid
         \<and> profile_snapshot (get_user e uid) = (dn, ph)
         \<and> identify_and_store e db [AuthGetUser uid]
             [(''userDisplayName'', Some (js_or (Some dn) (JStr ''Anonymous''))),
              (''userPhotoURL'', Some (js_or (Some ph) JNull))]
             iu (map_of (body req) ''imageDownloadUrl'')
             (map_of (body req) ''userId'') (map_of (body req) ''catchDetails'')
           = (Inr resp, tr, snd (snd (identifyFish_enriched e db req)))"
  using assms
  by (auto simp: identifyFish_enriched_def Let_def catch_block_def
           split: option.splits if_splits sum.splits prod.splits)

lemma map_of_json_object4:
  "k1 \<noteq> k4 \<Longrightarrow> k2 \<noteq> k4 \<Longrightarrow> k3 \<noteq> k4 \<Longrightarrow>
   map_of (json_object [(k1, a), (k2, b), (k3, c), (k4, d)]) k4 = d"
  by (cases a; cases b; cases c; cases d) simp_all

lemma api_identify_fish_200:
  assumes "status (fst (api_identify_fish e db b)) = 200"
      and "map_of b ''catchDetails'' = Some (JObj kvs)"
  shows "\<exists>d. snd (snd (api_identify_fish e db b)) = db @ [(new_id e, d)]
           \<and> map_of d ''catchDetails'' = Some (JObj kvs)"
proof -
  define args where "args = json_object
                [(''imageUrl'', map_of b ''imageUrl''),
                 (''imageDownloadUrl'', map_of b ''imageDownloadUrl''),
                 (''userId'', map_of b ''userId''),
                 (''catchDetails'', map_of b ''catchDetails'')]"
  have cd: "map_of args ''catchDetails'' = Some (JObj kvs)"
    unfolding args_def using assms(2) by (simp add: map_of_json_object4)
  from assms(1) obtain v tr db' where
    r: "identify_fish_tool e db args = (ToolOk v, tr, db')"
    and s: "snd (snd (api_identify_fish e db b)) = db'"
    by (auto simp: api_identify_fish_def call_tool_def args_def
             split: prod.splits tool_result.splits)
  from r obtain ident d where
    d: "defined_fields
             [(''userId'', map_of args ''userId''),
              (''imageUrl'', map_of args ''imageDownloadUrl''),
              (''identification'', Some ident),
              (''catchDetails'', Some (js_or (map_of args ''catchDetails'') (JObj []))),
              (''timestamp'', Some (JTimestamp (now e)))] = Some d"
    and db': "db' = db @ [(new_id e, d)]"
    by (auto simp: identify_fish_tool_def Let_def store_add_def
             split: option.splits bool.splits list.splits block.splits)
  from defined_fields_lookup [OF d, of "''catchDetails''"] cd
  have "map_of d ''catchDetails'' = Some (JObj kvs)"
    by (cases "map_of d ''catchDetails''") (auto simp: js_or_def)
  with s db' show ?thesis by simp
qed

text \<open>
  C5: when an identify request is accepted (the answer is the 200), the document appended
  to the collection holds as \<^verbatim>\<open>catchDetails\<close> exactly the value the caller supplied: in both
  variants of the cloud function whatever value it is, in the standalone server whenever
  the caller supplied an object.
\<close>

theorem catch_details_persisted_verbatim:
  "(status (fst (identifyFish e db req)) = 200 \<longrightarrow>
      (\<exists>d v. snd (snd (identifyFish e db req)) = db @ [(new_id e, d)]
            \<and> map_of (body req) ''catchDetails'' = Some v
            \<and> map_of d ''catchDetails'' = Some v))
   \<and> (status (fst (identifyFish_enriched e db req)) = 200 \<longrightarrow>
      (\<exists>d v. snd (snd (identifyFish_enriched e db req)) = db @ [(new_id e, d)]
            \<and> map_of (body req) ''catchDetails'' = Some v
            \<and> map_of d ''catchDetails'' = Some v))
   \<and> (status (fst (api_identify_fish e db b)) = 200
        \<and> map_of b ''catchDetails'' = Some (JObj kvs) \<longrightarrow>
      (\<exists>d. snd (snd (api_identify_fish e db b)) = db @ [(new_id e, d)]
          \<and> map_of d ''catchDetails'' = Some (JObj kvs)))"
proof (intro conjI impI)
  assume "status (fst (identifyFish e db req)) = 200"
  from identifyFish_200 [OF this] obtain iu resp tr where
    "identify_and_store e db [] [] iu (map_of (body req) ''imageDownloadUrl'')
             (map_of (body req) ''userId'') (map_of (body req) ''catchDetails'')
           = (Inr resp, tr, snd (snd (identifyFish e db req)))"
    by blast
  from identify_and_store_catchDetails [OF this]
  show "\<exists>d v. snd (snd (identifyFish e db req)) = db @ [(new_id e, d)]
            \<and> map_of (body req) ''catchDetails'' = Some v
            \<and> map_of d ''catchDetails'' = Some v"
    by simp
next
  assume "status (fst (identifyFish_enriched e db req)) = 200"
  from identifyFish_enriched_200 [OF this] obtain iu uid dn ph resp tr where
    "identify_and_store e db [AuthGetUser uid]
             [(''userDisplayName'', Some (js_or (Some dn) (JStr ''Anonymous''))),
              (''userPhotoURL'', Some (js_or (Some ph) JNull))]
             iu (map_of (body req) ''imageDownloadUrl'')
             (map_of (body req) ''userId'') (map_of (body req) ''catchDetails'')
           = (Inr resp, tr, snd (snd (identifyFish_enriched e db req)))"
    by blast
  from identify_and_store_catchDetails [OF this]
  show "\<exists>d v. snd (snd (identifyFish_enriched e db req)) = db @ [(new_id e, d)]
            \<and> map_of (body req) ''catchDetails'' = Some v
            \<and> map_of d ''catchDetails'' = Some v"
    by simp
next
  assume "status (fst (api_identify_fish e db b)) = 200
        \<and> map_of b ''catchDetails'' = Some (JObj kvs)"
  then show "\<exists>d. snd (snd (api_identify_fish e db b)) = db @ [(new_id e, d)]
          \<and> map_of d ''catchDetails'' = Some (JObj kvs)"
    using api_identify_fish_200 by blast
qed

theorem catch_details_persisted_verbatim_witness:
  "status (fst (identifyFish sample_env [] sample_request)) = 200
   \<and> status (fst (identifyFish_enriched sample_env [] sample_request)) = 200
   \<and> status (fst (api_identify_fish sample_env [] (body sample_request))) = 200
   \<and> (\<exists>d. snd (snd (identifyFish sample_env [] sample_request)) = [(''c1'', d)]
          \<and> map_of d ''catchDetails''
              = Some (JObj [(''location'', JStr ''Lake''), (''date'', JStr ''2025-01-01'')]))
   \<and> (\<exists>d. snd (snd (identifyFish_enriched sample_env [] sample_request)) = [(''c1'', d)]
          \<and> map_of d ''catchDetails''
              = Some (JObj [(''location'', JStr ''Lake''), (''date'', JStr ''2025-01-01'')]))
   \<and> (\<exists>d. snd (snd (api_identify_fish sample_env [] (body sample_request))) = [(''c1'', d)]
          \<and> map_of d ''catchDetails''
              = Some (JObj [(''location'', JStr ''Lake''), (''date'', JStr ''2025-01-01'')]))"
proof -
  have a: "status (fst (identifyFish sample_env [] sample_request)) = 200" by code_simp
  have b: "status (fst (identifyFish_enriched sample_env [] sample_request)) = 200" by code_simp
  have c: "status (fst (api_identify_fish sample_env [] (body sample_request))) = 200" by code_simp
  have cd: "map_of (body sample_request) ''catchDetails''
              = Some (JObj [(''location'', JStr ''Lake''), (''date'', JStr ''2025-01-01'')])"
    by (simp add: sample_request_def)
  have n: "new_id sample_env = ''c1''" by (simp add: sample_env_def)
  show ?thesis
    using a b c cd n
      catch_details_persisted_verbatim [of sample_env "[]" sample_request "body sample_request"
        "[(''location'', JStr ''Lake''), (''date'', JStr ''2025-01-01'')]"]
    by auto
qed

subsection \<open>The profile lookup of the enriched variant\<close>

lemma identify_and_store_extra:
  "fst (identify_and_store e db tr0 [(k1, Some a), (k2, Some b)] iu idu uid cd)
     = fst (identify_and_store e' db tr0 [(k1, Some a'), (k2, Some b')] iu idu uid cd)
   \<and> fst (snd (identify_and_store e db tr0 [(k1, Some a), (k2, Some b)] iu idu uid cd))
     = fst (snd (identify_and_store e' db tr0 [(k1, Some a'), (k2, Some b')] iu idu uid cd))"
  if "download e' = download e" "resize e' = resize e" "model_reply e' = model_reply e"
     "new_id e' = new_id e" "now e' = now e"
  using that
  by (cases uid; cases idu; cases cd)
     (auto simp: identify_and_store_def Let_def store_add_def split: option.splits block.splits)

lemma catch_block_fst:
  "fst r = fst r' \<Longrightarrow> fst (snd r) = fst (snd r') \<Longrightarrow>
   fst (catch_block r) = fst (catch_block r') \<and> fst (snd (catch_block r)) = fst (snd (catch_block r'))"
  by (cases r; cases r') (auto simp: catch_block_def split: sum.splits)

lemma identifyFish_enriched_lookup_irrelevant:
  "fst (identifyFish_enriched (e\<lparr>get_user := g\<rparr>) db req) = fst (identifyFish_enriched e db req)
   \<and> fst (snd (identifyFish_enriched (e\<lparr>get_user := g\<rparr>) db req))
       = fst (snd (identifyFish_enriched e db req))"
proof (cases "req_method req = ''POST'' \<and> truthy (map_of (body req) ''imageUrl'')
              \<and> truthy (map_of (body req) ''userId'')")
  case True
  then obtain iu uid where iu: "map_of (body req) ''imageUrl'' = Some iu" "js_truthy iu"
      and uid: "map_of (body req) ''userId'' = Some uid" "js_truthy uid"
    by (cases "map_of (body req) ''imageUrl''"; cases "map_of (body req) ''userId''") auto
  obtain dn ph where ps: "profile_snapshot (get_user e uid) = (dn, ph)"
    by (cases "profile_snapshot (get_user e uid)") auto
  obtain dn' ph' where ps': "profile_snapshot (g uid) = (dn', ph')"
    by (cases "profile_snapshot (g uid)") auto
  have x: "fst (identify_and_store (e\<lparr>get_user := g\<rparr>) db [AuthGetUser uid]
                [(''userDisplayName'', Some (js_or (Some dn') (JStr ''Anonymous''))),
                 (''userPhotoURL'', Some (js_or (Some ph') JNull))]
                iu (map_of (body req) ''imageDownloadUrl'') (Some uid)
                (map_of (body req) ''catchDetails''))
         = fst (identify_and_store e db [AuthGetUser uid]
                [(''userDisplayName'', Some (js_or (Some dn) (JStr ''Anonymous''))),
                 (''userPhotoURL'', Some (js_or (Some ph) JNull))]
                iu (map_of (body req) ''imageDownloadUrl'') (Some uid)
                (map_of (body req) ''catchDetails''))
       \<and> fst (snd (identify_and_store (e\<lparr>get_user := g\<rparr>) db [AuthGetUser uid]
                [(''userDisplayName'', Some (js_or (Some dn') (JStr ''Anonymous''))),
                 (''userPhotoURL'', Some (js_or (Some ph') JNull))]
                iu (map_of (body req) ''imageDownloadUrl'') (Some uid)
                (map_of (body req) ''catchDetails'')))
         = fst (snd (identify_and_store e db [AuthGetUser uid]
                [(''userDisplayName'', Some (js_or (Some dn) (JStr ''Anonymous''))),
                 (''userPhotoURL'', Some (js_or (Some ph) JNull))]
                iu (map_of (body req) ''imageDownloadUrl'') (Some uid)
                (map_of (body req) ''catchDetails'')))"
    by (rule identify_and_store_extra) simp_all
  show ?thesis
    using True iu uid ps ps' catch_block_fst [OF conjunct1 [OF x] conjunct2 [OF x]]
    by (simp add: identifyFish_enriched_def Let_def)
next
  case False
  then show ?thesis
    by (auto simp: identifyFish_enriched_def Let_def split: option.splits)
qed

text \<open>
  C9: in the enriched variant the answer to the caller and the calls made do not depend on
  what the profile lookup returns or whether it throws, so a failed lookup never aborts a
  request that would otherwise succeed; and when the lookup throws and the request is
  accepted, the document written carries the display name \<^verbatim>\<open>"Anonymous"\<close> and the photo
  \<^verbatim>\<open>null\<close>.
\<close>

theorem failed_profile_lookup_is_not_fatal:
  assumes "map_of (body req) ''userId'' = Some uid"
      and "get_user e uid = None"
  shows "fst (identifyFish_enriched e db req) = fst (identifyFish_enriched (e\<lparr>get_user := g\<rparr>) db req)
       \<and> (status (fst (identifyFish_enriched e db req)) = 200 \<longrightarrow>
            (\<exists>d. snd (snd (identifyFish_enriched e db req)) = db @ [(new_id e, d)]
                \<and> map_of d ''userDisplayName'' = Some (JStr ''Anonymous'')
                \<and> map_of d ''userPhotoURL'' = Some JNull))"
proof (intro conjI impI)
  show "fst (identifyFish_enriched e db req) = fst (identifyFish_enriched (e\<lparr>get_user := g\<rparr>) db req)"
    by (simp add: identifyFish_enriched_lookup_irrelevant)
next
  assume "status (fst (identifyFish_enriched e db req)) = 200"
  from identifyFish_enriched_200 [OF this] assms obtain iu resp tr where
    "identify_and_store e db [AuthGetUser uid]
             [(''userDisplayName'', Some (JStr ''Anonymous'')),
              (''userPhotoURL'', Some JNull)]
             iu (map_of (body req) ''imageDownloadUrl'')
             (map_of (body req) ''userId'') (map_of (body req) ''catchDetails'')
           = (Inr resp, tr, snd (snd (identifyFish_enriched e db req)))"
    by (auto simp: profile_snapshot_def js_or_def)
  from identify_and_store_Inr [OF this] obtain ident d where
    d: "defined_fields ([(''userId'', map_of (body req) ''userId'')] @
             [(''userDisplayName'', Some (JStr ''Anonymous'')),
              (''userPhotoURL'', Some JNull)] @
                        [(''imageUrl'', map_of (body req) ''imageDownloadUrl''),
                         (''identification'', Some ident),
                         (''catchDetails'', map_of (body req) ''catchDetails''),
                         (''timestamp'', Some (JTimestamp (now e)))]) = Some d"
    and db': "snd (snd (identifyFish_enriched e db req)) = db @ [(new_id e, d)]"
    by blast
  from defined_fields_lookup [OF d, of "''userDisplayName''"]
  have 1: "map_of d ''userDisplayName'' = Some (JStr ''Anonymous'')"
    by (cases "map_of d ''userDisplayName''") auto
  from defined_fields_lookup [OF d, of "''userPhotoURL''"]
  have 2: "map_of d ''userPhotoURL'' = Some JNull"
    by (cases "map_of d ''userPhotoURL''") auto
  from db' 1 2
  show "\<exists>d. snd (snd (identifyFish_enriched e db req)) = db @ [(new_id e, d)]
                \<and> map_of d ''userDisplayName'' = Some (JStr ''Anonymous'')
                \<and> map_of d ''userPhotoURL'' = Some JNull"
    by blast
qed

theorem failed_profile_lookup_is_not_fatal_witness:
  "get_user sample_env (JStr ''u1'') = None
   \<and> status (fst (identifyFish_enriched sample_env [] sample_request)) = 200
   \<and> fst (identifyFish_enriched sample_env [] sample_request)
       = fst (identifyFish_enriched
                (sample_env\<lparr>get_user := \<lambda>u. Some \<lparr>displayName = Some ''Ann'', photoURL = None\<rparr>\<rparr>)
                [] sample_request)
   \<and> (\<exists>d. snd (snd (identifyFish_enriched sample_env [] sample_request)) = [(''c1'', d)]
          \<and> map_of d ''userDisplayName'' = Some (JStr ''Anonymous'')
          \<and> map_of d ''userPhotoURL'' = Some JNull)"
proof -
  have a: "map_of (body sample_request) ''userId'' = Some (JStr ''u1'')"
    by (simp add: sample_request_def)
  have b: "get_user sample_env (JStr ''u1'') = None"
    by (simp add: sample_env_def)
  have c: "status (fst (identifyFish_enriched sample_env [] sample_request)) = 200"
    by code_simp
  have n: "new_id sample_env = ''c1''" by (simp add: sample_env_def)
  show ?thesis
    using b c n
      failed_profile_lookup_is_not_fatal [OF a b, of "[]"
        "\<lambda>u. Some \<lparr>displayName = Some ''Ann'', photoURL = None\<rparr>"]
    by auto
qed

subsection \<open>The backfill\<close>

text \<open>What one round of the loop does to the document it visits.\<close>

definition backfill_change :: "env \<Rightarrow> doc \<Rightarrow> doc \<Rightarrow> doc" where
  "backfill_change e data d =
     (if truthy (map_of data ''userDisplayName'') \<and>
         map_of data ''userDisplayName'' \<noteq> Some (JStr ''Anonymous'')
      then d
      else
        (case map_of data ''userId'' of
           None \<Rightarrow> d
         | Some uid \<Rightarrow>
             if js_truthy uid then
               (case get_user e uid of
                  Some u \<Rightarrow>
                    set_fields d
                      [(''userDisplayName'', js_or (map_option JStr (displayName u)) (JStr ''Anonymous'')),
                       (''userPhotoURL'', js_or (map_option JStr (photoURL u)) JNull)]
                | None \<Rightarrow> d)
             else d))"

lemma update_doc_same: "update_doc db i (\<lambda>d. d) = db"
  by (induction db) (auto simp: update_doc_def)

lemma update_doc_keys: "map fst (update_doc db i f) = map fst db"
  by (induction db) (auto simp: update_doc_def)

lemma map_of_update_doc:
  "map_of (update_doc db i f) j = (if j = i then map_option f (map_of db j) else map_of db j)"
  by (induction db) (auto simp: update_doc_def)

lemma backfill_loop_step:
  "\<exists>updated' skipped'.
     backfill_loop e ((i, data) # docs) (db, updated, skipped)
       = backfill_loop e docs (update_doc db i (backfill_change e data), updated', skipped')"
proof (cases "truthy (map_of data ''userDisplayName'') \<and>
              map_of data ''userDisplayName'' \<noteq> Some (JStr ''Anonymous'')")
  case True
  then have "backfill_change e data = (\<lambda>d. d)"
    by (simp add: backfill_change_def fun_eq_iff)
  with True show ?thesis
    by (auto simp: update_doc_same)
next
  case noskip: False
  show ?thesis
  proof (cases "map_of data ''userId''")
    case None
    with noskip have "backfill_change e data = (\<lambda>d. d)"
      by (simp add: backfill_change_def fun_eq_iff)
    with noskip None show ?thesis
      by (auto simp: update_doc_same)
  next
    case (Some uid)
    show ?thesis
    proof (cases "js_truthy uid")
      case False
      with noskip Some have "backfill_change e data = (\<lambda>d. d)"
        by (simp add: backfill_change_def fun_eq_iff)
      with noskip Some False show ?thesis
        by (auto simp: update_doc_same)
    next
      case True
      show ?thesis
      proof (cases "get_user e uid")
        case None
        with noskip Some True have "backfill_change e data = (\<lambda>d. d)"
          by (simp add: backfill_change_def fun_eq_iff)
        with noskip Some True None show ?thesis
          by (auto simp: update_doc_same)
      next
        case (Some u)
        with noskip \<open>map_of data ''userId'' = Some uid\<close> True
        have "backfill_change e data = (\<lambda>d. set_fields d
                      [(''userDisplayName'', js_or (map_option JStr (displayName u)) (JStr ''Anonymous'')),
                       (''userPhotoURL'', js_or (map_option JStr (photoURL u)) JNull)])"
          by (auto simp: backfill_change_def fun_eq_iff)
        with noskip \<open>map_of data ''userId'' = Some uid\<close> True Some show ?thesis
          by auto
      qed
    qed
  qed
qed

lemma backfill_loop_fold:
  "fst (backfill_loop e docs (db, updated, skipped))
     = foldl (\<lambda>db' p. update_doc db' (fst p) (backfill_change e (snd p))) db docs"
proof (induction docs arbitrary: db updated skipped)
  case Nil
  then show ?case by simp
next
  case (Cons p docs)
  obtain i data where p: "p = (i, data)" by (cases p)
  from backfill_loop_step [of e i data docs db updated skipped]
  obtain updated' skipped' where
    "backfill_loop e (p # docs) (db, updated, skipped)
       = backfill_loop e docs (update_doc db i (backfill_change e data), updated', skipped')"
    unfolding p by blast
  then show ?case
    by (simp add: Cons.IH p)
qed

lemma fold_update_keys:
  "map fst (foldl (\<lambda>db' p. update_doc db' (fst p) (g (snd p))) db docs) = map fst db"
  by (induction docs arbitrary: db) (simp_all add: update_doc_keys)

lemma fold_update_lookup:
  assumes "distinct (map fst docs)"
  shows "map_of (foldl (\<lambda>db' p. update_doc db' (fst p) (g (snd p))) db docs) j
           = (case map_of docs j of
                None \<Rightarrow> map_of db j
              | Some data \<Rightarrow> map_option (g data) (map_of db j))"
  using assms
proof (induction docs arbitrary: db)
  case Nil
  then show ?case by simp
next
  case (Cons p docs)
  obtain i data where p: "p = (i, data)" by (cases p)
  from Cons.prems have d: "distinct (map fst docs)" and ni: "i \<notin> fst ` set docs"
    by (auto simp: p)
  from ni have none: "map_of docs i = None"
    by (simp add: map_of_eq_None_iff)
  show ?case
  proof (cases "j = i")
    case True
    with Cons.IH [OF d, of "update_doc db i (g data)"] none show ?thesis
      by (simp add: p map_of_update_doc)
  next
    case False
    with Cons.IH [OF d, of "update_doc db i (g data)"] show ?thesis
      by (simp add: p map_of_update_doc cong: option.case_cong)
  qed
qed

lemma map_of_obj_set: "map_of (obj_set d k v) k' = (if k' = k then Some v else map_of d k')"
  by (simp add: obj_set_def update_conv')

lemma backfill_change_frame:
  "k \<noteq> ''userDisplayName'' \<Longrightarrow> k \<noteq> ''userPhotoURL'' \<Longrightarrow>
   map_of (backfill_change e data d) k = map_of d k"
  by (simp add: backfill_change_def set_fields_def map_of_obj_set split: option.splits)

lemma backfill_lookup:
  assumes "distinct (map fst db)" and "(i, d) \<in> set db"
  shows "map_of (snd (backfillUserInfo e db)) i = Some (backfill_change e d d)"
proof -
  from assms have m: "map_of db i = Some d" by simp
  have "snd (backfillUserInfo e db) = fst (backfill_loop e db (db, 0, 0))"
    by (simp add: backfillUserInfo_def split: prod.splits)
  then show ?thesis
    using fold_update_lookup [OF assms(1), of "backfill_change e" db i] m
    by (simp add: backfill_loop_fold)
qed

lemma backfill_keys: "map fst (snd (backfillUserInfo e db)) = map fst db"
proof -
  have "snd (backfillUserInfo e db) = fst (backfill_loop e db (db, 0, 0))"
    by (simp add: backfillUserInfo_def split: prod.splits)
  then show ?thesis
    by (simp add: backfill_loop_fold fold_update_keys)
qed

text \<open>
  C10: the backfill keeps the documents and their identifiers; a document whose
  \<^verbatim>\<open>userDisplayName\<close> is there and is not \<^verbatim>\<open>"Anonymous"\<close> is left as it is, and so is a
  document without a (truthy) \<^verbatim>\<open>userId\<close>; in every document, every field other than
  \<^verbatim>\<open>userDisplayName\<close> and \<^verbatim>\<open>userPhotoURL\<close> is as before. Identifiers are unique in the
  store.
\<close>

theorem backfill_changes_only_profile_fields:
  assumes "distinct (map fst db)"
  shows "map fst (snd (backfillUserInfo e db)) = map fst db
       \<and> (\<forall>(i, d) \<in> set db.
            \<exists>d'. map_of (snd (backfillUserInfo e db)) i = Some d'
               \<and> (truthy (map_of d ''userDisplayName'')
                    \<and> map_of d ''userDisplayName'' \<noteq> Some (JStr ''Anonymous'') \<longrightarrow> d' = d)
               \<and> (\<not> truthy (map_of d ''userId'') \<longrightarrow> d' = d)
               \<and> (\<forall>k. k \<noteq> ''userDisplayName'' \<and> k \<noteq> ''userPhotoURL''
                        \<longrightarrow> map_of d' k = map_of d k))"
proof (intro conjI)
  show "map fst (snd (backfillUserInfo e db)) = map fst db"
    by (rule backfill_keys)
next
  show "\<forall>(i, d) \<in> set db.
            \<exists>d'. map_of (snd (backfillUserInfo e db)) i = Some d'
               \<and> (truthy (map_of d ''userDisplayName'')
                    \<and> map_of d ''userDisplayName'' \<noteq> Some (JStr ''Anonymous'') \<longrightarrow> d' = d)
               \<and> (\<not> truthy (map_of d ''userId'') \<longrightarrow> d' = d)
               \<and> (\<forall>k. k \<noteq> ''userDisplayName'' \<and> k \<noteq> ''userPhotoURL''
                        \<longrightarrow> map_of d' k = map_of d k)"
  proof (intro ballI, clarify)
    fix i d
    assume m: "(i, d) \<in> set db"
    have 1: "truthy (map_of d ''userDisplayName'')
              \<and> map_of d ''userDisplayName'' \<noteq> Some (JStr ''Anonymous'')
             \<longrightarrow> backfill_change e d d = d"
      by (simp add: backfill_change_def)
    have 2: "\<not> truthy (map_of d ''userId'') \<longrightarrow> backfill_change e d d = d"
      by (auto simp: backfill_change_def split: option.splits)
    have 3: "\<forall>k. k \<noteq> ''userDisplayName'' \<and> k \<noteq> ''userPhotoURL''
                 \<longrightarrow> map_of (backfill_change e d d) k = map_of d k"
      by (simp add: backfill_change_frame)
    from backfill_lookup [OF assms m, of e] 1 2 3
    show "\<exists>d'. map_of (snd (backfillUserInfo e db)) i = Some d'
               \<and> (truthy (map_of d ''userDisplayName'')
                    \<and> map_of d ''userDisplayName'' \<noteq> Some (JStr ''Anonymous'') \<longrightarrow> d' = d)
               \<and> (\<not> truthy (map_of d ''userId'') \<longrightarrow> d' = d)
               \<and> (\<forall>k. k \<noteq> ''userDisplayName'' \<and> k \<noteq> ''userPhotoURL''
                        \<longrightarrow> map_of d' k = map_of d k)"
      by blast
  qed
qed

theorem backfill_changes_only_profile_fields_witness:
  "distinct (map fst sample_db)
   \<and> map fst (snd (backfillUserInfo profile_env sample_db)) = [''c1'', ''c2'']
   \<and> map_of (snd (backfillUserInfo profile_env sample_db)) ''c2'' = map_of sample_db ''c2''
   \<and> (\<exists>d'. map_of (snd (backfillUserInfo profile_env sample_db)) ''c1'' = Some d'
          \<and> map_of d' ''catchDetails''
              = Some (JObj [(''location'', JStr ''Lake''), (''date'', JStr ''2025-01-01'')])
          \<and> map_of d' ''timestamp'' = Some (JTimestamp 1))"
proof -
  have d: "distinct (map fst sample_db)" by (simp add: sample_db_def)
  show ?thesis
    using d backfill_changes_only_profile_fields [OF d, of profile_env]
    by (simp add: sample_db_def sample_doc1_def sample_doc2_def) force
qed

subsection \<open>Editing a catch\<close>

lemma js_get_Inr: "js_get x k = Inr v \<Longrightarrow> v = map_of (spread x) k"
  by (cases "(x, k)" rule: js_get.cases) auto

lemma map_of_set_path:
  "map_of (set_path k1 k2 v d) k = (if k = k1 then Some (JObj (obj_set (spread (map_of d k1)) k2 v)) else map_of d k)"
  by (simp add: set_path_def map_of_obj_set)

lemma subfield_set_path:
  "subfield (set_path k1 k2 v d) k1' k2'
     = (if k1' = k1 then (if k2' = k2 then Some v else subfield d k1' k2') else subfield d k1' k2')"
  by (simp add: subfield_def map_of_set_path map_of_obj_set)

lemma edit_fields_top:
  "k \<noteq> ''catchDetails'' \<Longrightarrow> k \<noteq> ''identification'' \<Longrightarrow> map_of (edit_fields ed d) k = map_of d k"
  by (simp add: edit_fields_def map_of_set_path)

lemma edit_fields_identification:
  "subfield (edit_fields ed d) ''identification'' k
     = (if k = ''scientificName'' then Some (ed_scientificName ed)
        else if k = ''commonName'' then Some (ed_commonName ed)
        else subfield d ''identification'' k)"
  by (simp add: edit_fields_def subfield_set_path)

lemma edit_fields_catchDetails:
  "subfield (edit_fields ed d) ''catchDetails'' k
     = (if k = ''location'' then Some (ed_location ed)
        else if k = ''method'' then Some (ed_method ed)
        else if k = ''notes'' then Some (ed_notes ed)
        else subfield d ''catchDetails'' k)"
  by (simp add: edit_fields_def subfield_set_path)

text \<open>Opening the form either fails and changes nothing, or fills it from the selected catch.\<close>

lemma handleEditCatch_cases:
  "handleEditCatch s = s
   \<or> (\<exists>c. selectedCatch s = Some c
          \<and> handleEditCatch s = s\<lparr>editedDetails := form_of (spread (Some c)), isEditing := True\<rparr>)"
proof (cases "selectedCatch s")
  case None
  then show ?thesis by (simp add: handleEditCatch_def)
next
  case (Some c)
  show ?thesis
  proof (cases "\<exists>cd ident l m n cn sn.
        js_get (Some c) ''catchDetails'' = Inr cd \<and> js_get (Some c) ''identification'' = Inr ident
      \<and> js_get cd ''location'' = Inr l \<and> js_get cd ''method'' = Inr m \<and> js_get cd ''notes'' = Inr n
      \<and> js_get ident ''commonName'' = Inr cn \<and> js_get ident ''scientificName'' = Inr sn")
    case True
    then obtain cd ident l m n cn sn where g:
        "js_get (Some c) ''catchDetails'' = Inr cd" "js_get (Some c) ''identification'' = Inr ident"
        "js_get cd ''location'' = Inr l" "js_get cd ''method'' = Inr m" "js_get cd ''notes'' = Inr n"
        "js_get ident ''commonName'' = Inr cn" "js_get ident ''scientificName'' = Inr sn"
      by blast
    from g(1,2) have c: "cd = map_of (spread (Some c)) ''catchDetails''"
        "ident = map_of (spread (Some c)) ''identification''"
      by (auto dest: js_get_Inr)
    from g(3-7) have v: "l = subfield (spread (Some c)) ''catchDetails'' ''location''"
        "m = subfield (spread (Some c)) ''catchDetails'' ''method''"
        "n = subfield (spread (Some c)) ''catchDetails'' ''notes''"
        "cn = subfield (spread (Some c)) ''identification'' ''commonName''"
        "sn = subfield (spread (Some c)) ''identification'' ''scientificName''"
      unfolding subfield_def c [symmetric] by (auto dest: js_get_Inr)
    have "handleEditCatch s = s\<lparr>editedDetails := form_of (spread (Some c)), isEditing := True\<rparr>"
      using Some g unfolding form_of_def v [symmetric]
      by (simp add: handleEditCatch_def)
    with Some show ?thesis by simp
  next
    case False
    have "handleEditCatch s = s"
      using Some False
      by (auto simp: handleEditCatch_def split: sum.splits)
    then show ?thesis by simp
  qed
qed


lemma field_of_JObj: "field_of (JObj kvs) k = map_of kvs k"
  by (simp add: field_of_def)

lemma js_truthy_mk_catch [simp]: "js_truthy (mk_catch p)"
  by (simp add: mk_catch_def)

lemma renders_type_into [simp]: "renders (type_into f v s) = renders s"
  by (cases f; cases "selectedCatch s") (simp_all add: type_into_def renders_def displayed_def)

lemma visible_type_into [simp]: "visible (type_into f v s) b = visible s b"
  by (cases f; cases b)
     (simp_all add: type_into_def visible_def isOwnCatch_def split: option.splits)

text \<open>What a click on Edit does to the page; the stores are as before.\<close>

lemma dispatch_edit:
  "dispatch ce (Clicked EditButton) (s, db, assets) = (s, db, assets)
   \<or> (\<exists>c u. selectedCatch s = Some c \<and> user s = Some u \<and> js_truthy c \<and> isOwnCatch s c
            \<and> dispatch ce (Clicked EditButton) (s, db, assets)
                = (s\<lparr>editedDetails := form_of (spread (Some c)), isEditing := True\<rparr>, db, assets))"
proof (cases "renders s \<and> visible s EditButton")
  case False
  then show ?thesis by (auto simp: dispatch_def)
next
  case True
  then obtain c u where v: "selectedCatch s = Some c" "user s = Some u" "js_truthy c" "isOwnCatch s c"
    by (auto simp: visible_def split: option.splits)
  from True have "dispatch ce (Clicked EditButton) (s, db, assets) = (handleEditCatch s, db, assets)"
    by (simp add: dispatch_def)
  with handleEditCatch_cases [of s] v show ?thesis by auto
qed

text \<open>
  Opening the form on the selected catch, typing a location and saving: the collection is
  as before, or the document the selected catch refers to has been assigned the five fields
  of the form, which holds what was read from the selected catch, and the new location.
\<close>

lemma edit_location_run:
  assumes "\<not> isEditing s"
  shows "fst (snd (run ce [Clicked EditButton, Typed Location v, Clicked SaveButton] (s, db, assets))) = db
       \<or> (\<exists>c i. selectedCatch s = Some c \<and> doc_ref c = Some i
              \<and> fst (snd (run ce [Clicked EditButton, Typed Location v, Clicked SaveButton] (s, db, assets)))
                  = update_doc db i (edit_fields ((form_of (spread (Some c)))\<lparr>ed_location := JStr v\<rparr>)))"
proof -
  from dispatch_edit [of ce s db assets]
  consider (same) "dispatch ce (Clicked EditButton) (s, db, assets) = (s, db, assets)"
    | (opened) c u where "selectedCatch s = Some c" "user s = Some u" "js_truthy c"
        "dispatch ce (Clicked EditButton) (s, db, assets)
           = (s\<lparr>editedDetails := form_of (spread (Some c)), isEditing := True\<rparr>, db, assets)"
    by blast
  then show ?thesis
  proof cases
    case same
    have "\<not> visible s SaveButton"
      using assms by (simp add: visible_def split: option.splits)
    with same have "run ce [Clicked EditButton, Typed Location v, Clicked SaveButton] (s, db, assets)
      = (s, db, assets)"
      by (simp add: run_def dispatch_def)
    then show ?thesis by simp
  next
    case opened
    define s1 where "s1 = s\<lparr>editedDetails := form_of (spread (Some c)), isEditing := True\<rparr>"
    define s2 where "s2 = type_into Location v s1"
    have 1: "dispatch ce (Clicked EditButton) (s, db, assets) = (s1, db, assets)"
      using opened(4) by (simp add: s1_def)
    show ?thesis
    proof (cases "renders s1")
      case False
      then have "dispatch ce ev (s1, db, assets) = (s1, db, assets)" for ev
        by (simp add: dispatch_def)
      with 1 have "run ce [Clicked EditButton, Typed Location v, Clicked SaveButton] (s, db, assets)
        = (s1, db, assets)"
        by (simp add: run_def)
      then show ?thesis by simp
    next
      case True
      have v1: "visible s1 SaveButton"
        using opened(1,2,3) by (simp add: visible_def s1_def)
      with True have 2: "dispatch ce (Typed Location v) (s1, db, assets) = (s2, db, assets)"
        by (simp add: dispatch_def s2_def)
      have sel: "selectedCatch s2 = Some c" "user s2 = Some u"
          "editedDetails s2 = (form_of (spread (Some c)))\<lparr>ed_location := JStr v\<rparr>"
        using opened(1,2) by (simp_all add: s2_def s1_def type_into_def)
      have r2: "renders s2" "visible s2 SaveButton"
        using True v1 by (simp_all add: s2_def)
      have "snd (snd (handleSaveEdit ce s2 db)) = db
          \<or> (\<exists>i. doc_ref c = Some i
                \<and> snd (snd (handleSaveEdit ce s2 db))
                    = update_doc db i (edit_fields ((form_of (spread (Some c)))\<lparr>ed_location := JStr v\<rparr>)))"
        using sel by (auto simp: handleSaveEdit_def split: option.splits)
      moreover have "run ce [Clicked EditButton, Typed Location v, Clicked SaveButton] (s, db, assets)
          = (case handleSaveEdit ce s2 db of (s', tr, db') \<Rightarrow> (s', db', assets))"
        using 1 2 r2 by (simp add: run_def dispatch_def)
      ultimately show ?thesis
        using opened(1) by (auto split: prod.splits)
    qed
  qed
qed

lemma edit_fields_identification_same:
  assumes "map_of d ''identification'' = Some (JObj m)"
      and "map_of m ''commonName'' = Some (ed_commonName ed)"
      and "map_of m ''scientificName'' = Some (ed_scientificName ed)"
  shows "map_of (edit_fields ed d) ''identification'' = Some (JObj m)"
  using assms
  by (simp add: edit_fields_def map_of_set_path obj_set_def AList.update_triv)

lemma js_or_Some_keep: "js_truthy v \<or> v = JStr [] \<Longrightarrow> js_or (Some v) (JStr []) = v"
  by (auto simp: js_or_def)

text \<open>
  C6, as the code has it. The form is closed; the user opens it on the selected catch, types
  a location and saves. Whatever the selected catch is, every document of the collection
  has afterwards the timestamp it had, and every field of its identification other than
  \<^verbatim>\<open>commonName\<close> and \<^verbatim>\<open>scientificName\<close> as it was. These two are as they were, or they are
  what the form held: the name of the selected catch (the copy of the document the client
  keeps), the empty string for an absent or falsy one. So when the two names of the copy are
  those of the document, each of them truthy or the empty string, the whole identification
  is as it was.
\<close>

theorem location_edit_keeps_timestamp_and_identification:
  assumes "distinct (map fst db)" and "(i, d) \<in> set db" and "\<not> isEditing s"
  shows "\<exists>d'. map_of (fst (snd (run ce [Clicked EditButton, Typed Location v, Clicked SaveButton]
                                   (s, db, assets)))) i = Some d'
       \<and> map_of d' ''timestamp'' = map_of d ''timestamp''
       \<and> (\<forall>k. k \<noteq> ''commonName'' \<and> k \<noteq> ''scientificName''
              \<longrightarrow> subfield d' ''identification'' k = subfield d ''identification'' k)
       \<and> (\<forall>k. subfield d' ''identification'' k = subfield d ''identification'' k
              \<or> (\<exists>c. selectedCatch s = Some c \<and> doc_ref c = Some i
                     \<and> subfield d' ''identification'' k
                         = Some (js_or (subfield (spread (Some c)) ''identification'' k) (JStr []))))
       \<and> (\<forall>c m. selectedCatch s = Some c \<and> map_of d ''identification'' = Some (JObj m)
                \<and> (\<forall>k \<in> {''commonName'', ''scientificName''}.
                      \<exists>x. map_of m k = Some x \<and> (js_truthy x \<or> x = JStr [])
                          \<and> subfield (spread (Some c)) ''identification'' k = Some x)
              \<longrightarrow> map_of d' ''identification'' = map_of d ''identification'')"
proof -
  define db' where
    "db' = fst (snd (run ce [Clicked EditButton, Typed Location v, Clicked SaveButton] (s, db, assets)))"
  from assms(1,2) have m: "map_of db i = Some d" by simp
  from edit_location_run [OF assms(3), of ce v db assets]
  consider (same) "db' = db"
    | (saved) c j where "selectedCatch s = Some c" "doc_ref c = Some j"
        "db' = update_doc db j (edit_fields ((form_of (spread (Some c)))\<lparr>ed_location := JStr v\<rparr>))"
    by (auto simp: db'_def)
  then have "\<exists>d'. map_of db' i = Some d'
       \<and> map_of d' ''timestamp'' = map_of d ''timestamp''
       \<and> (\<forall>k. k \<noteq> ''commonName'' \<and> k \<noteq> ''scientificName''
              \<longrightarrow> subfield d' ''identification'' k = subfield d ''identification'' k)
       \<and> (\<forall>k. subfield d' ''identification'' k = subfield d ''identification'' k
              \<or> (\<exists>c. selectedCatch s = Some c \<and> doc_ref c = Some i
                     \<and> subfield d' ''identification'' k
                         = Some (js_or (subfield (spread (Some c)) ''identification'' k) (JStr []))))
       \<and> (\<forall>c m. selectedCatch s = Some c \<and> map_of d ''identification'' = Some (JObj m)
                \<and> (\<forall>k \<in> {''commonName'', ''scientificName''}.
                      \<exists>x. map_of m k = Some x \<and> (js_truthy x \<or> x = JStr [])
                          \<and> subfield (spread (Some c)) ''identification'' k = Some x)
              \<longrightarrow> map_of d' ''identification'' = map_of d ''identification'')"
  proof cases
    case same
    with m show ?thesis by simp
  next
    case saved
    define ed where "ed = (form_of (spread (Some c)))\<lparr>ed_location := JStr v\<rparr>"
    show ?thesis
    proof (cases "j = i")
      case False
      with saved(3) m have "map_of db' i = Some d"
        by (simp add: map_of_update_doc)
      then show ?thesis by simp
    next
      case True
      with saved(3) m have l: "map_of db' i = Some (edit_fields ed d)"
        by (simp add: map_of_update_doc ed_def)
      have cn: "ed_commonName ed = js_or (subfield (spread (Some c)) ''identification'' ''commonName'') (JStr [])"
        and sn: "ed_scientificName ed = js_or (subfield (spread (Some c)) ''identification'' ''scientificName'') (JStr [])"
        by (simp_all add: ed_def form_of_def)
      have a: "map_of (edit_fields ed d) ''timestamp'' = map_of d ''timestamp''"
        by (simp add: edit_fields_top)
      have b: "\<forall>k. k \<noteq> ''commonName'' \<and> k \<noteq> ''scientificName''
              \<longrightarrow> subfield (edit_fields ed d) ''identification'' k = subfield d ''identification'' k"
        by (simp add: edit_fields_identification)
      have c: "subfield (edit_fields ed d) ''identification'' k = subfield d ''identification'' k
              \<or> (\<exists>c. selectedCatch s = Some c \<and> doc_ref c = Some i
                     \<and> subfield (edit_fields ed d) ''identification'' k
                         = Some (js_or (subfield (spread (Some c)) ''identification'' k) (JStr [])))" for k
        using saved(1,2) True by (simp add: edit_fields_identification cn sn)
      have e: "map_of (edit_fields ed d) ''identification'' = map_of d ''identification''"
        if h: "selectedCatch s = Some c' \<and> map_of d ''identification'' = Some (JObj m)
                \<and> (\<forall>k \<in> {''commonName'', ''scientificName''}.
                      \<exists>x. map_of m k = Some x \<and> (js_truthy x \<or> x = JStr [])
                          \<and> subfield (spread (Some c')) ''identification'' k = Some x)" for c' m
      proof -
        from h saved(1) have cc: "c' = c" by simp
        from h obtain x y where
              x: "map_of m ''commonName'' = Some x" "js_truthy x \<or> x = JStr []"
                 "subfield (spread (Some c)) ''identification'' ''commonName'' = Some x"
          and y: "map_of m ''scientificName'' = Some y" "js_truthy y \<or> y = JStr []"
                 "subfield (spread (Some c)) ''identification'' ''scientificName'' = Some y"
          unfolding cc by auto
        from x y have "ed_commonName ed = x" "ed_scientificName ed = y"
          by (simp_all add: cn sn js_or_Some_keep)
        with edit_fields_identification_same [of d m ed] h x(1) y(1) show ?thesis by simp
      qed
      from l a b c e show ?thesis by blast
    qed
  qed
  then show ?thesis unfolding db'_def .
qed


theorem location_edit_keeps_timestamp_and_identification_witness:
  "distinct (map fst sample_db) \<and> (''c1'', sample_doc1) \<in> set sample_db \<and> \<not> isEditing view_of_u1
   \<and> selectedCatch view_of_u1 = Some (mk_catch (''c1'', sample_doc1))
   \<and> (\<exists>d'. map_of (fst (snd (run sample_client_env
                  [Clicked EditButton, Typed Location ''River'', Clicked SaveButton]
                  (view_of_u1, sample_db, [])))) ''c1'' = Some d'
          \<and> subfield d' ''catchDetails'' ''location'' = Some (JStr ''River'')
          \<and> map_of d' ''timestamp'' = Some (JTimestamp 1)
          \<and> map_of d' ''identification''
              = Some (JObj [(''commonName'', JStr ''Bass''),
                            (''scientificName'', JStr ''Micropterus''),
                            (''confidence'', JStr ''high'')]))"
proof -
  define m where "m = [(''commonName'', JStr ''Bass''), (''scientificName'', JStr ''Micropterus''),
                       (''confidence'', JStr ''high'')]"
  have 1: "distinct (map fst sample_db)" by (simp add: sample_db_def)
  have 2: "(''c1'', sample_doc1) \<in> set sample_db" by (simp add: sample_db_def)
  have 3: "\<not> isEditing view_of_u1" by code_simp
  have sel: "selectedCatch view_of_u1 = Some (mk_catch (''c1'', sample_doc1))" by code_simp
  have t: "map_of sample_doc1 ''timestamp'' = Some (JTimestamp 1)"
    by (simp add: sample_doc1_def)
  have i: "map_of sample_doc1 ''identification'' = Some (JObj m)"
    by (simp add: sample_doc1_def m_def)
  have cn: "subfield (spread (Some (mk_catch (''c1'', sample_doc1)))) ''identification'' ''commonName''
              = Some (JStr ''Bass'')" by code_simp
  have sn: "subfield (spread (Some (mk_catch (''c1'', sample_doc1)))) ''identification'' ''scientificName''
              = Some (JStr ''Micropterus'')" by code_simp
  have names: "\<forall>k \<in> {''commonName'', ''scientificName''}.
      \<exists>x. map_of m k = Some x \<and> (js_truthy x \<or> x = JStr [])
          \<and> subfield (spread (Some (mk_catch (''c1'', sample_doc1)))) ''identification'' k = Some x"
    using cn sn by (simp add: m_def)
  have loc: "map_option (\<lambda>d'. subfield d' ''catchDetails'' ''location'')
               (map_of (fst (snd (run sample_client_env
                  [Clicked EditButton, Typed Location ''River'', Clicked SaveButton]
                  (view_of_u1, sample_db, [])))) ''c1'') = Some (Some (JStr ''River''))"
    by code_simp
  from location_edit_keeps_timestamp_and_identification
         [OF 1 2 3, of sample_client_env "''River''" "[]"]
  obtain d' where d: "map_of (fst (snd (run sample_client_env
                  [Clicked EditButton, Typed Location ''River'', Clicked SaveButton]
                  (view_of_u1, sample_db, [])))) ''c1'' = Some d'"
      "map_of d' ''timestamp'' = map_of sample_doc1 ''timestamp''"
      "\<forall>c m. selectedCatch view_of_u1 = Some c \<and> map_of sample_doc1 ''identification'' = Some (JObj m)
                \<and> (\<forall>k \<in> {''commonName'', ''scientificName''}.
                      \<exists>x. map_of m k = Some x \<and> (js_truthy x \<or> x = JStr [])
                          \<and> subfield (spread (Some c)) ''identification'' k = Some x)
              \<longrightarrow> map_of d' ''identification'' = map_of sample_doc1 ''identification''"
    by blast
  from d(3) sel i names have "map_of d' ''identification'' = map_of sample_doc1 ''identification''"
    by blast
  with d(1,2) loc t i have "map_of (fst (snd (run sample_client_env
                  [Clicked EditButton, Typed Location ''River'', Clicked SaveButton]
                  (view_of_u1, sample_db, [])))) ''c1'' = Some d'
          \<and> subfield d' ''catchDetails'' ''location'' = Some (JStr ''River'')
          \<and> map_of d' ''timestamp'' = Some (JTimestamp 1)
          \<and> map_of d' ''identification'' = Some (JObj m)"
    by simp
  with 1 2 3 sel show ?thesis unfolding m_def by blast
qed

text \<open>
  C6 as stated fails for a catch whose identification has no names (the answer of the
  model is stored without a check of its fields, and the page shows such a catch): after
  its owner has changed the location only, the stored identification has two fields it did
  not have.
\<close>

theorem location_edit_adds_names_to_identification:
  "map_of sample_doc2 ''identification'' = Some (JObj [(''confidence'', JStr ''low'')])
   \<and> map_option (\<lambda>d'. map_of d' ''identification'')
        (map_of (fst (snd (run sample_client_env
                  [AuthStateChanged (Some ''u2''), CardClicked (mk_catch (''c2'', sample_doc2)),
                   Clicked EditButton, Typed Location ''River'', Clicked SaveButton]
                  (initial_state, sample_db, [])))) ''c2'')
     = Some (Some (JObj [(''confidence'', JStr ''low''), (''commonName'', JStr []),
                         (''scientificName'', JStr [])]))"
  by code_simp

text \<open>
  The names the form holds are those of the copy the client keeps, and \<^verbatim>\<open>handleSaveEdit\<close>
  brings only the list of the own catches up to date, not the community list. So after the
  owner has renamed a catch, its copy in the Community tab still has the old name, and a
  change of the location made from there writes the old name back.
\<close>

lemma location_edit_from_community_tab_restores_old_name:
  "(case run sample_client_env
          [AuthStateChanged (Some ''u1''), CardClicked (mk_catch (''c1'', sample_doc1)),
           Clicked EditButton, Typed CommonName ''Trout'', Clicked SaveButton, Clicked CloseButton]
          (initial_state, sample_db, []) of
      (s, db, assets) \<Rightarrow>
        map_option (\<lambda>d. subfield d ''identification'' ''commonName'') (map_of db ''c1'')
          = Some (Some (JStr ''Trout''))
        \<and> map_option (\<lambda>d. subfield d ''identification'' ''commonName'')
             (map_of (fst (snd (run sample_client_env
                [TabClicked Community, CardClicked (mk_catch (''c1'', sample_doc1)),
                 Clicked EditButton, Typed Location ''River'', Clicked SaveButton] (s, db, assets)))) ''c1'')
            = Some (Some (JStr ''Bass'')))"
  by code_simp

subsection \<open>Deleting a catch\<close>

lemma list_all_subset: "set (list_all db) \<subseteq> set db"
  by (auto simp: list_all_def order_by_timestamp_desc_def)

lemma list_user_subset: "set (list_user db uid) \<subseteq> set db"
  by (auto simp: list_user_def order_by_timestamp_desc_def)

text \<open>
  C8: a signed-in user confirms the deletion of the selected catch and the store accepts it.
  Whatever the object store holds and whatever \<^verbatim>\<open>deleteObject\<close> answers (removed, not
  found, another error), the handler first asks for the removal of the object, then removes
  the document; afterwards no document with that identifier is in the result of either
  query.
\<close>

theorem delete_removes_catch_from_both_lists:
  assumes "selectedCatch s = Some c" and "js_truthy c" and "user s = Some u"
      and "js_get (field_of c ''identification'') ''commonName'' = Inr name"
      and "doc_ref c = Some i"
      and "confirm_delete ce" and "\<not> write_fails ce"
  shows "\<exists>s' assets'.
           handleDeleteCatch ce s db assets
             = (s', [DeleteObject (field_of c ''imageUrl''), DeleteDoc i],
                filter (\<lambda>p. fst p \<noteq> i) db, assets')
         \<and> i \<notin> fst ` set (list_all (filter (\<lambda>p. fst p \<noteq> i) db))
         \<and> (\<forall>uid. i \<notin> fst ` set (list_user (filter (\<lambda>p. fst p \<noteq> i) db) uid))
         \<and> selectedCatch s' = None"
proof -
  have "i \<notin> fst ` set (filter (\<lambda>p. fst p \<noteq> i) db)" by auto
  with list_all_subset [of "filter (\<lambda>p. fst p \<noteq> i) db"]
  have a: "i \<notin> fst ` set (list_all (filter (\<lambda>p. fst p \<noteq> i) db))" by blast
  have b: "i \<notin> fst ` set (list_user (filter (\<lambda>p. fst p \<noteq> i) db) uid)" for uid
    using list_user_subset [of "filter (\<lambda>p. fst p \<noteq> i) db" uid] by auto
  from assms a b show ?thesis
    by (simp add: handleDeleteCatch_def Let_def)
qed

theorem delete_removes_catch_from_both_lists_witness:
  "selectedCatch view_of_u1 = Some (mk_catch (''c1'', sample_doc1))
   \<and> doc_ref (mk_catch (''c1'', sample_doc1)) = Some ''c1''
   \<and> (\<exists>s' assets'.
         handleDeleteCatch sample_client_env view_of_u1 sample_db []
           = (s', [DeleteObject (Some (JStr ''https://storage.example/1_bass.jpg'')), DeleteDoc ''c1''],
              [(''c2'', sample_doc2)], assets')
       \<and> ''c1'' \<notin> fst ` set (list_all [(''c2'', sample_doc2)])
       \<and> ''c1'' \<notin> fst ` set (list_user [(''c2'', sample_doc2)] ''u1''))"
proof -
  have 1: "selectedCatch view_of_u1 = Some (mk_catch (''c1'', sample_doc1))" by code_simp
  have 2: "js_truthy (mk_catch (''c1'', sample_doc1))" by simp
  have 3: "user view_of_u1 = Some ''u1''" by code_simp
  have 4: "js_get (field_of (mk_catch (''c1'', sample_doc1)) ''identification'') ''commonName''
            = Inr (Some (JStr ''Bass''))" by code_simp
  have 5: "doc_ref (mk_catch (''c1'', sample_doc1)) = Some ''c1''" by code_simp
  have 6: "confirm_delete sample_client_env" "\<not> write_fails sample_client_env"
    by (simp_all add: sample_client_env_def)
  have 7: "field_of (mk_catch (''c1'', sample_doc1)) ''imageUrl''
            = Some (JStr ''https://storage.example/1_bass.jpg'')" by code_simp
  have 8: "filter (\<lambda>p. fst p \<noteq> ''c1'') sample_db = [(''c2'', sample_doc2)]"
    by (simp add: sample_db_def)
  from delete_removes_catch_from_both_lists [OF 1 2 3 4 5 6, of sample_db "[]"] 1 5
  show ?thesis
    unfolding 7 8 by blast
qed

subsection \<open>Mutations after creation\<close>

lemma same_outside_iff:
  "same_outside ks m m' \<longleftrightarrow> (\<forall>k. k \<notin> set ks \<longrightarrow> map_of m' k = map_of m k)"
proof
  assume h: "same_outside ks m m'"
  show "\<forall>k. k \<notin> set ks \<longrightarrow> map_of m' k = map_of m k"
  proof (intro allI impI)
    fix k
    assume k: "k \<notin> set ks"
    show "map_of m' k = map_of m k"
    proof (cases "k \<in> set (map fst m @ map fst m')")
      case True
      with h k show ?thesis unfolding same_outside_def by blast
    next
      case False
      then have "map_of m k = None" "map_of m' k = None"
        by (simp_all add: map_of_eq_None_iff)
      then show ?thesis by simp
    qed
  qed
next
  assume "\<forall>k. k \<notin> set ks \<longrightarrow> map_of m' k = map_of m k"
  then show "same_outside ks m m'" unfolding same_outside_def by blast
qed

lemma map_changed_refl: "map_changed ks v v"
  by (simp add: map_changed_def)

lemma map_changed_cases:
  assumes "map_changed ks a b"
  shows "b = a \<or> (\<exists>m. b = Some (JObj m) \<and> same_outside ks (spread a) m)"
proof (cases "b = a")
  case True
  then show ?thesis by simp
next
  case False
  with assms have h: "case b of Some (JObj m') \<Rightarrow> same_outside ks (spread a) m' | _ \<Rightarrow> False"
    by (simp add: map_changed_def)
  then obtain x where b: "b = Some x" by (cases b) simp_all
  with h obtain m where "x = JObj m" by (cases x) simp_all
  with h b show ?thesis by simp
qed

lemma map_changed_trans:
  assumes "map_changed ks a b" and "map_changed ks b c"
  shows "map_changed ks a c"
proof -
  from map_changed_cases [OF assms(1)] map_changed_cases [OF assms(2)]
  consider "b = a" | "c = b"
    | m1 m2 where "b = Some (JObj m1)" "same_outside ks (spread a) m1"
        "c = Some (JObj m2)" "same_outside ks (spread b) m2"
    by blast
  then show ?thesis
  proof cases
    case 1
    with assms(2) show ?thesis by simp
  next
    case 2
    with assms(1) show ?thesis by simp
  next
    case 3
    from 3(2,4) have "same_outside ks (spread a) m2"
      by (simp add: same_outside_iff 3(1))
    with 3(3) show ?thesis by (simp add: map_changed_def)
  qed
qed

lemma permitted_change_refl: "permitted_change d d"
  by (simp add: permitted_change_def map_changed_refl same_outside_iff)

lemma permitted_change_trans:
  assumes "permitted_change d d'" and "permitted_change d' d''"
  shows "permitted_change d d''"
proof -
  from assms have "same_outside [''catchDetails'', ''identification'', ''userDisplayName'', ''userPhotoURL''] d d''"
    by (simp add: permitted_change_def same_outside_iff)
  moreover from assms have "map_changed [''location'', ''method'', ''notes'']
           (map_of d ''catchDetails'') (map_of d'' ''catchDetails'')"
    unfolding permitted_change_def by (blast intro: map_changed_trans)
  moreover from assms have "map_changed [''commonName'', ''scientificName'']
           (map_of d ''identification'') (map_of d'' ''identification'')"
    unfolding permitted_change_def by (blast intro: map_changed_trans)
  ultimately show ?thesis by (simp add: permitted_change_def)
qed

lemma permitted_backfill_change: "permitted_change d (backfill_change e data d)"
proof -
  have "map_of (backfill_change e data d) k = map_of d k"
    if "k \<noteq> ''userDisplayName''" "k \<noteq> ''userPhotoURL''" for k
    using that by (rule backfill_change_frame)
  then show ?thesis
    by (simp add: permitted_change_def same_outside_iff map_changed_def)
qed

lemma permitted_edit_fields: "permitted_change d (edit_fields ed d)"
proof -
  have cd: "map_of (edit_fields ed d) ''catchDetails''
      = Some (JObj (obj_set (obj_set (obj_set (spread (map_of d ''catchDetails''))
                      ''location'' (ed_location ed)) ''method'' (ed_method ed)) ''notes'' (ed_notes ed)))"
    by (simp add: edit_fields_def map_of_set_path)
  have ident: "map_of (edit_fields ed d) ''identification''
      = Some (JObj (obj_set (obj_set (spread (map_of d ''identification''))
                      ''commonName'' (ed_commonName ed)) ''scientificName'' (ed_scientificName ed)))"
    by (simp add: edit_fields_def map_of_set_path)
  show ?thesis
    unfolding permitted_change_def map_changed_def cd ident
    by (simp add: same_outside_iff edit_fields_top map_of_obj_set)
qed

text \<open>Two collections with the same identifiers, document by document a permitted change.\<close>

definition permitted_changes :: "collection \<Rightarrow> collection \<Rightarrow> bool" where
  "permitted_changes db db' = list_all2 (\<lambda>p q. fst q = fst p \<and> permitted_change (snd p) (snd q)) db db'"

lemma permitted_changes_refl: "permitted_changes db db"
  by (simp add: permitted_changes_def list_all2_refl permitted_change_refl)

lemma permitted_changes_trans:
  assumes "permitted_changes a b" and "permitted_changes b c"
  shows "permitted_changes a c"
  using assms unfolding permitted_changes_def
  by (rule list_all2_trans [rotated]) (auto intro: permitted_change_trans)

lemma permitted_changes_update_doc:
  assumes "\<And>d. permitted_change d (f d)"
  shows "permitted_changes db (update_doc db i f)"
  unfolding permitted_changes_def update_doc_def
  by (induction db) (auto simp: assms permitted_change_refl)

lemma permitted_changes_fold:
  "permitted_changes db
     (foldl (\<lambda>db' p. update_doc db' (fst p) (backfill_change e (snd p))) db docs)"
proof (induction docs arbitrary: db)
  case Nil
  then show ?case by (simp add: permitted_changes_refl)
next
  case (Cons p docs)
  have "permitted_changes db (update_doc db (fst p) (backfill_change e (snd p)))"
    by (rule permitted_changes_update_doc) (rule permitted_backfill_change)
  from permitted_changes_trans [OF this Cons.IH] show ?case by simp
qed

lemma permitted_changes_member:
  assumes "permitted_changes db db'" and "(i, d') \<in> set db'"
  shows "\<exists>d. (i, d) \<in> set db \<and> permitted_change d d'"
proof -
  have "list_all2 P xs ys \<Longrightarrow> y \<in> set ys \<Longrightarrow> \<exists>x \<in> set xs. P x y" for P xs ys and y :: "string \<times> doc"
    by (induction rule: list_all2_induct) auto
  from this [OF assms(1) [unfolded permitted_changes_def] assms(2)] show ?thesis
    by force
qed

lemma identify_and_store_db:
  "snd (snd (identify_and_store e db tr0 extra iu idu uid cd)) = db
   \<or> (\<exists>d. snd (snd (identify_and_store e db tr0 extra iu idu uid cd)) = db @ [(new_id e, d)])"
  by (auto simp: identify_and_store_def Let_def store_add_def split: option.splits block.splits)

lemma catch_block_db: "snd (snd (catch_block r)) = snd (snd r)"
  by (cases r) (auto simp: catch_block_def split: sum.splits)

lemma identifyFish_db:
  "snd (snd (identifyFish e db req)) = db
   \<or> (\<exists>d. snd (snd (identifyFish e db req)) = db @ [(new_id e, d)])"
  using identify_and_store_db
  by (auto simp: identifyFish_def Let_def catch_block_db split: option.splits)

lemma identifyFish_enriched_db:
  "snd (snd (identifyFish_enriched e db req)) = db
   \<or> (\<exists>d. snd (snd (identifyFish_enriched e db req)) = db @ [(new_id e, d)])"
  using identify_and_store_db
  by (auto simp: identifyFish_enriched_def Let_def catch_block_db split: option.splits prod.splits)

lemma api_identify_fish_db:
  "snd (snd (api_identify_fish e db b)) = db
   \<or> (\<exists>d. snd (snd (api_identify_fish e db b)) = db @ [(new_id e, d)])"
proof -
  define args where "args = json_object
                [(''imageUrl'', map_of b ''imageUrl''),
                 (''imageDownloadUrl'', map_of b ''imageDownloadUrl''),
                 (''userId'', map_of b ''userId''),
                 (''catchDetails'', map_of b ''catchDetails'')]"
  have "snd (snd (identify_fish_tool e db args)) = db
      \<or> (\<exists>d. snd (snd (identify_fish_tool e db args)) = db @ [(new_id e, d)])"
    by (auto simp: identify_fish_tool_def Let_def store_add_def
             split: option.splits bool.splits list.splits block.splits)
  moreover have "snd (snd (api_identify_fish e db b)) = snd (snd (identify_fish_tool e db args))"
    by (cases "identify_fish_tool e db args")
       (auto simp: api_identify_fish_def call_tool_def args_def split: tool_result.splits)
  ultimately show ?thesis by simp
qed

lemma handleSaveEdit_db:
  "snd (snd (handleSaveEdit ce s db)) = db
   \<or> (\<exists>i. snd (snd (handleSaveEdit ce s db)) = update_doc db i (edit_fields (editedDetails s)))"
  by (auto simp: handleSaveEdit_def split: option.splits)

lemma handleDeleteCatch_db:
  "fst (snd (snd (handleDeleteCatch ce s db assets))) = db
   \<or> (\<exists>i. fst (snd (snd (handleDeleteCatch ce s db assets))) = filter (\<lambda>p. fst p \<noteq> i) db)"
  by (auto simp: handleDeleteCatch_def Let_def split: option.splits sum.splits)

lemma apply_operation_frame:
  assumes "(i, d') \<in> set (apply_operation op db)"
  shows "(\<exists>d. (i, d) \<in> set db \<and> permitted_change d d') \<or> apply_operation op db = db @ [(i, d')]"
proof -
  have same: ?thesis if "apply_operation op db = db"
    using that assms permitted_change_refl by auto
  have added: ?thesis if "apply_operation op db = db @ [(j, d)]" for j d
    using that assms permitted_change_refl by auto
  have changed: ?thesis if "permitted_changes db (apply_operation op db)"
    using permitted_changes_member [OF that assms] by simp
  show ?thesis
  proof (cases op)
    case (Identify e req)
    with identifyFish_db [of e db req] same added show ?thesis by auto
  next
    case (IdentifyEnriched e req)
    with identifyFish_enriched_db [of e db req] same added show ?thesis by auto
  next
    case (IdentifyStandalone e b)
    with api_identify_fish_db [of e db b] same added show ?thesis by auto
  next
    case (Backfill e)
    have "snd (backfillUserInfo e db) = fst (backfill_loop e db (db, 0, 0))"
      by (simp add: backfillUserInfo_def split: prod.splits)
    with Backfill permitted_changes_fold [of db e db] changed show ?thesis
      by (simp add: backfill_loop_fold)
  next
    case (SaveEdit ce s)
    from handleSaveEdit_db [of ce s db]
    have "permitted_changes db (snd (snd (handleSaveEdit ce s db)))"
      using permitted_changes_refl permitted_changes_update_doc [of "edit_fields (editedDetails s)" db]
            permitted_edit_fields
      by auto
    with SaveEdit changed show ?thesis by simp
  next
    case (DeleteCatch ce s assets)
    from handleDeleteCatch_db [of ce s db assets]
    have "set (apply_operation op db) \<subseteq> set db"
      using DeleteCatch by auto
    with assms permitted_change_refl show ?thesis by blast
  qed
qed

text \<open>What the two handlers that write do to the page and to the collection.\<close>

lemma handleSaveEdit_cases:
  assumes "handleSaveEdit ce s db = (s', tr, db')"
  shows "(s' = s \<and> db' = db)
       \<or> (\<not> isEditing s' \<and> (\<exists>c i. selectedCatch s = Some c \<and> doc_ref c = Some i
              \<and> db' = update_doc db i (edit_fields (editedDetails s))))"
  using assms by (auto simp: handleSaveEdit_def split: option.splits if_splits)

lemma handleDeleteCatch_cases:
  assumes "handleDeleteCatch ce s db assets = (s', tr, db', assets')"
  shows "(s' = s \<and> db' = db)
       \<or> (\<not> isEditing s' \<and> (\<exists>c i. selectedCatch s = Some c \<and> doc_ref c = Some i
              \<and> db' = filter (\<lambda>p. fst p \<noteq> i) db))"
  using assms by (auto simp: handleDeleteCatch_def Let_def split: option.splits if_splits sum.splits)

lemma handleCancelEdit_closes: "\<not> isEditing (handleCancelEdit s)"
  by (auto simp: handleCancelEdit_def split: option.splits sum.splits prod.splits)


text \<open>
  What an event can do to the page: nothing; leave the edit mode closed; open the form for
  the owner of the selected catch; or leave the edit mode and the selected catch as they
  are, and the user too unless the event is one that changes the user.
\<close>

lemma dispatch_state_cases:
  "fst (dispatch ce ev (s, db, assets)) = s
   \<or> \<not> isEditing (fst (dispatch ce ev (s, db, assets)))
   \<or> (\<exists>c. selectedCatch s = Some c \<and> isOwnCatch s c
          \<and> fst (dispatch ce ev (s, db, assets))
              = s\<lparr>editedDetails := form_of (spread (Some c)), isEditing := True\<rparr>)
   \<or> (isEditing (fst (dispatch ce ev (s, db, assets))) = isEditing s
       \<and> selectedCatch (fst (dispatch ce ev (s, db, assets))) = selectedCatch s
       \<and> (user (fst (dispatch ce ev (s, db, assets))) = user s \<or> changes_user ev))"
proof (cases "renders s")
  case False
  then show ?thesis by (simp add: dispatch_def)
next
  case r: True
  show ?thesis
  proof (cases ev)
    case (AuthStateChanged u)
    with r show ?thesis
      by (cases u) (simp_all add: dispatch_def loadCatches_def loadCommunityCatches_def)
  next
    case SignOutClicked
    with r show ?thesis by (simp add: dispatch_def)
  next
    case (TabClicked t)
    with r show ?thesis by (simp add: dispatch_def)
  next
    case (AnglerSelected v)
    with r show ?thesis by (simp add: dispatch_def)
  next
    case (CardClicked c)
    with r show ?thesis by (simp add: dispatch_def)
  next
    case BackdropClicked
    with r show ?thesis by (simp add: dispatch_def)
  next
    case (Typed f v)
    with r show ?thesis
      by (cases f) (simp_all add: dispatch_def type_into_def)
  next
    case (Clicked b)
    show ?thesis
    proof (cases "visible s b")
      case False
      with r Clicked show ?thesis by (simp add: dispatch_def)
    next
      case v: True
      show ?thesis
      proof (cases b)
        case EditButton
        with dispatch_edit [of ce s db assets] Clicked show ?thesis by auto
      next
        case DeleteButton
        obtain s' tr db' assets' where h: "handleDeleteCatch ce s db assets = (s', tr, db', assets')"
          by (cases "handleDeleteCatch ce s db assets") auto
        with r v Clicked DeleteButton have "fst (dispatch ce ev (s, db, assets)) = s'"
          by (simp add: dispatch_def)
        with handleDeleteCatch_cases [OF h] show ?thesis by auto
      next
        case CloseButton
        with r v Clicked show ?thesis by (simp add: dispatch_def)
      next
        case SaveButton
        obtain s' tr db' where h: "handleSaveEdit ce s db = (s', tr, db')"
          by (cases "handleSaveEdit ce s db") auto
        with r v Clicked SaveButton have "fst (dispatch ce ev (s, db, assets)) = s'"
          by (simp add: dispatch_def)
        with handleSaveEdit_cases [OF h] show ?thesis by auto
      next
        case CancelButton
        with r v Clicked handleCancelEdit_closes [of s] show ?thesis by (simp add: dispatch_def)
      qed
    qed
  qed
qed

text \<open>
  What an event can do to the collection: nothing, or, for the document the selected catch
  refers to, the update of a click on Save or the removal of a click on Delete.
\<close>

lemma dispatch_db_cases:
  "fst (snd (dispatch ce ev (s, db, assets))) = db
   \<or> (\<exists>c i. selectedCatch s = Some c \<and> doc_ref c = Some i
         \<and> ((visible s SaveButton
               \<and> fst (snd (dispatch ce ev (s, db, assets))) = update_doc db i (edit_fields (editedDetails s)))
            \<or> (visible s DeleteButton
               \<and> fst (snd (dispatch ce ev (s, db, assets))) = filter (\<lambda>p. fst p \<noteq> i) db)))"
proof (cases "renders s")
  case False
  then show ?thesis by (simp add: dispatch_def)
next
  case r: True
  show ?thesis
  proof (cases ev)
    case (AuthStateChanged u)
    with r show ?thesis by (cases u) (simp_all add: dispatch_def)
  next
    case SignOutClicked
    with r show ?thesis by (simp add: dispatch_def)
  next
    case (TabClicked t)
    with r show ?thesis by (simp add: dispatch_def)
  next
    case (AnglerSelected v)
    with r show ?thesis by (simp add: dispatch_def)
  next
    case (CardClicked c)
    with r show ?thesis by (simp add: dispatch_def)
  next
    case BackdropClicked
    with r show ?thesis by (simp add: dispatch_def)
  next
    case (Typed f v)
    with r show ?thesis by (simp add: dispatch_def)
  next
    case (Clicked b)
    show ?thesis
    proof (cases "visible s b")
      case False
      with r Clicked show ?thesis by (simp add: dispatch_def)
    next
      case v: True
      show ?thesis
      proof (cases b)
        case EditButton
        with r v Clicked show ?thesis by (simp add: dispatch_def)
      next
        case DeleteButton
        obtain s' tr db' assets' where h: "handleDeleteCatch ce s db assets = (s', tr, db', assets')"
          by (cases "handleDeleteCatch ce s db assets") auto
        with r v Clicked DeleteButton have "fst (snd (dispatch ce ev (s, db, assets))) = db'"
          by (simp add: dispatch_def)
        with handleDeleteCatch_cases [OF h] v DeleteButton show ?thesis by auto
      next
        case CloseButton
        with r v Clicked show ?thesis by (simp add: dispatch_def)
      next
        case SaveButton
        obtain s' tr db' where h: "handleSaveEdit ce s db = (s', tr, db')"
          by (cases "handleSaveEdit ce s db") auto
        with r v Clicked SaveButton have "fst (snd (dispatch ce ev (s, db, assets))) = db'"
          by (simp add: dispatch_def)
        with handleSaveEdit_cases [OF h] v SaveButton show ?thesis by auto
      next
        case CancelButton
        with r v Clicked show ?thesis by (simp add: dispatch_def)
      qed
    qed
  qed
qed

lemma isOwnCatch_userId:
  "isOwnCatch s c \<Longrightarrow> \<exists>u. user s = Some u \<and> field_of c ''userId'' = Some (JStr u)"
  by (auto simp: isOwnCatch_def field_of_def split: option.splits)

lemma opened_by_owner_cong:
  "isEditing s' = isEditing s \<Longrightarrow> selectedCatch s' = selectedCatch s \<Longrightarrow> user s' = user s
   \<Longrightarrow> opened_by_owner s' = opened_by_owner s"
  by (cases "selectedCatch s") (simp_all add: opened_by_owner_def isOwnCatch_def)

lemma dispatch_keeps_opened_by_owner:
  assumes "\<not> isEditing s \<or> (opened_by_owner s \<and> \<not> changes_user ev)"
  shows "opened_by_owner (fst (dispatch ce ev (s, db, assets)))"
proof -
  define s' where "s' = fst (dispatch ce ev (s, db, assets))"
  from dispatch_state_cases [of ce ev s db assets]
  consider "s' = s" | "\<not> isEditing s'"
    | c where "selectedCatch s = Some c" "isOwnCatch s c"
        "s' = s\<lparr>editedDetails := form_of (spread (Some c)), isEditing := True\<rparr>"
    | "isEditing s' = isEditing s" "selectedCatch s' = selectedCatch s" "user s' = user s \<or> changes_user ev"
    unfolding s'_def by blast
  then have "opened_by_owner s'"
  proof cases
    case 1
    with assms show ?thesis by (auto simp: opened_by_owner_def)
  next
    case 2
    then show ?thesis by (simp add: opened_by_owner_def)
  next
    case 3
    then show ?thesis by (simp add: opened_by_owner_def isOwnCatch_def)
  next
    case 4
    show ?thesis
    proof (cases "isEditing s")
      case False
      with 4(1) show ?thesis by (simp add: opened_by_owner_def)
    next
      case True
      with assms 4(3) have "opened_by_owner s" "user s' = user s" by auto
      with opened_by_owner_cong [OF 4(1,2)] show ?thesis by simp
    qed
  qed
  then show ?thesis unfolding s'_def .
qed

lemma run_keeps_opened_by_owner:
  assumes "opened_by_owner s" and "\<forall>ev \<in> set evs. \<not> changes_user ev"
  shows "opened_by_owner (fst (run ce evs (s, db, assets)))"
  using assms
proof (induction evs arbitrary: s db assets)
  case Nil
  then show ?case by (simp add: run_def)
next
  case (Cons ev evs)
  obtain s1 db1 assets1 where d: "dispatch ce ev (s, db, assets) = (s1, db1, assets1)"
    by (cases "dispatch ce ev (s, db, assets)") auto
  from Cons.prems dispatch_keeps_opened_by_owner [of s ev ce db assets] d
  have "opened_by_owner s1" by simp
  with Cons.IH [of s1 db1 assets1] Cons.prems(2) d show ?case
    by (simp add: run_def)
qed

lemma dispatch_write_by_owner:
  assumes "opened_by_owner s" and "fst (snd (dispatch ce ev (s, db, assets))) \<noteq> db"
  shows "\<exists>u c i. user s = Some u \<and> selectedCatch s = Some c
           \<and> field_of c ''userId'' = Some (JStr u) \<and> doc_ref c = Some i
           \<and> (\<forall>p \<in> set db. fst p \<noteq> i \<longrightarrow> p \<in> set (fst (snd (dispatch ce ev (s, db, assets)))))"
proof -
  define db' where "db' = fst (snd (dispatch ce ev (s, db, assets)))"
  from dispatch_db_cases [of ce ev s db assets] assms(2)
  obtain c i where c: "selectedCatch s = Some c" "doc_ref c = Some i"
      and w: "(visible s SaveButton \<and> db' = update_doc db i (edit_fields (editedDetails s)))
            \<or> (visible s DeleteButton \<and> db' = filter (\<lambda>p. fst p \<noteq> i) db)"
    unfolding db'_def by blast
  from w have "isOwnCatch s c"
  proof
    assume "visible s SaveButton \<and> db' = update_doc db i (edit_fields (editedDetails s))"
    then have "isEditing s" using c(1) by (auto simp: visible_def split: option.splits)
    with assms(1) c(1) show ?thesis by (simp add: opened_by_owner_def)
  next
    assume "visible s DeleteButton \<and> db' = filter (\<lambda>p. fst p \<noteq> i) db"
    then show ?thesis using c(1) by (auto simp: visible_def split: option.splits)
  qed
  from isOwnCatch_userId [OF this] obtain u where u: "user s = Some u" "field_of c ''userId'' = Some (JStr u)"
    by blast
  have "p \<in> set (update_doc db i f)" if "p \<in> set db" "fst p \<noteq> i" for p f
  proof -
    obtain j d where p: "p = (j, d)" by (cases p)
    with that(2) have "(\<lambda>(j, d). if j = i then (j, f d) else (j, d)) p = p" by simp
    with that(1) show ?thesis unfolding update_doc_def by force
  qed
  with w have "\<forall>p \<in> set db. fst p \<noteq> i \<longrightarrow> p \<in> set db'"
    by auto
  with c u show ?thesis unfolding db'_def by blast
qed

text \<open>
  C2, as the code has it. Whatever operation of the sources writes to the collection,
  every document in the collection afterwards is either the one document the operation has
  just created, or a document that was there before, with the same identifier and changed
  at most in the three editable fields of \<^verbatim>\<open>catchDetails\<close>, the two names of the
  identification (a value in the place of one of these two maps that is no map having been
  replaced by a map of the fields assigned) and the two profile fields \<^verbatim>\<open>userDisplayName\<close>
  and \<^verbatim>\<open>userPhotoURL\<close> (which the backfill writes). The client renders the Edit and the
  Delete control only when the uid of the signed-in user is the \<^verbatim>\<open>userId\<close> of the selected
  catch. On the page as it starts no edit form is open; an event leaves every open form
  opened by the owner, when the form is closed before the event or when it was opened by
  the owner and the event does not change the user; and as long as that holds, an event
  that changes the collection changes only the document the selected catch refers to, the
  uid of the signed-in user being the \<^verbatim>\<open>userId\<close> of the selected catch.
\<close>

theorem writes_after_creation_are_permitted:
  "(\<forall>(i, d') \<in> set (apply_operation op db).
       (\<exists>d. (i, d) \<in> set db \<and> permitted_change d d') \<or> apply_operation op db = db @ [(i, d')])
   \<and> (visible s EditButton \<or> visible s DeleteButton \<longrightarrow>
        (\<exists>u c. user s = Some u \<and> selectedCatch s = Some c
              \<and> field_of c ''userId'' = Some (JStr u)))
   \<and> opened_by_owner initial_state
   \<and> (\<not> isEditing s \<or> (opened_by_owner s \<and> \<not> changes_user ev) \<longrightarrow>
        opened_by_owner (fst (dispatch ce ev (s, db, assets))))
   \<and> (opened_by_owner s \<and> fst (snd (dispatch ce ev (s, db, assets))) \<noteq> db \<longrightarrow>
        (\<exists>u c i. user s = Some u \<and> selectedCatch s = Some c
           \<and> field_of c ''userId'' = Some (JStr u) \<and> doc_ref c = Some i
           \<and> (\<forall>p \<in> set db. fst p \<noteq> i \<longrightarrow> p \<in> set (fst (snd (dispatch ce ev (s, db, assets)))))))"
proof (intro conjI)
  show "\<forall>(i, d') \<in> set (apply_operation op db).
       (\<exists>d. (i, d) \<in> set db \<and> permitted_change d d') \<or> apply_operation op db = db @ [(i, d')]"
    using apply_operation_frame by blast
next
  show "visible s EditButton \<or> visible s DeleteButton \<longrightarrow>
        (\<exists>u c. user s = Some u \<and> selectedCatch s = Some c
              \<and> field_of c ''userId'' = Some (JStr u))"
    by (auto simp: visible_def isOwnCatch_def field_of_def split: option.splits)
next
  show "opened_by_owner initial_state"
    by (simp add: opened_by_owner_def initial_state_def)
next
  show "\<not> isEditing s \<or> (opened_by_owner s \<and> \<not> changes_user ev) \<longrightarrow>
        opened_by_owner (fst (dispatch ce ev (s, db, assets)))"
    using dispatch_keeps_opened_by_owner by blast
next
  show "opened_by_owner s \<and> fst (snd (dispatch ce ev (s, db, assets))) \<noteq> db \<longrightarrow>
        (\<exists>u c i. user s = Some u \<and> selectedCatch s = Some c
           \<and> field_of c ''userId'' = Some (JStr u) \<and> doc_ref c = Some i
           \<and> (\<forall>p \<in> set db. fst p \<noteq> i \<longrightarrow> p \<in> set (fst (snd (dispatch ce ev (s, db, assets))))))"
    using dispatch_write_by_owner by blast
qed

theorem writes_after_creation_are_permitted_witness:
  "(''c1'', sample_doc1 @ [(''userDisplayName'', JStr ''Ann''), (''userPhotoURL'', JNull)])
      \<in> set (apply_operation (Backfill profile_env) sample_db)
   \<and> ((\<exists>d. (''c1'', d) \<in> set sample_db
           \<and> permitted_change d
                (sample_doc1 @ [(''userDisplayName'', JStr ''Ann''), (''userPhotoURL'', JNull)]))
        \<or> apply_operation (Backfill profile_env) sample_db
            = sample_db @ [(''c1'', sample_doc1 @ [(''userDisplayName'', JStr ''Ann''),
                                                   (''userPhotoURL'', JNull)])])
   \<and> visible view_of_u1 EditButton
   \<and> (\<exists>u c. user view_of_u1 = Some u \<and> selectedCatch view_of_u1 = Some c
            \<and> field_of c ''userId'' = Some (JStr u))
   \<and> \<not> isEditing view_of_u1
   \<and> isEditing (fst (dispatch sample_client_env (Clicked EditButton) (view_of_u1, sample_db, [])))
   \<and> opened_by_owner (fst (dispatch sample_client_env (Clicked EditButton) (view_of_u1, sample_db, [])))
   \<and> opened_by_owner editing_u1
   \<and> fst (snd (dispatch sample_client_env (Clicked SaveButton) (editing_u1, sample_db, []))) \<noteq> sample_db
   \<and> (\<exists>u c i. user editing_u1 = Some u \<and> selectedCatch editing_u1 = Some c
           \<and> field_of c ''userId'' = Some (JStr u) \<and> doc_ref c = Some i
           \<and> (\<forall>p \<in> set sample_db. fst p \<noteq> i \<longrightarrow>
                 p \<in> set (fst (snd (dispatch sample_client_env (Clicked SaveButton)
                                       (editing_u1, sample_db, []))))))"
proof -
  have 1: "(''c1'', sample_doc1 @ [(''userDisplayName'', JStr ''Ann''), (''userPhotoURL'', JNull)])
      \<in> set (apply_operation (Backfill profile_env) sample_db)"
    by code_simp
  have 2: "visible view_of_u1 EditButton" by code_simp
  have 3: "\<not> isEditing view_of_u1" by code_simp
  have 4: "isEditing (fst (dispatch sample_client_env (Clicked EditButton) (view_of_u1, sample_db, [])))"
    by code_simp
  have 5: "opened_by_owner editing_u1" by code_simp
  have 6: "fst (snd (dispatch sample_client_env (Clicked SaveButton) (editing_u1, sample_db, [])))
            \<noteq> sample_db"
    by code_simp
  from 1 2 3 4 5 6
       writes_after_creation_are_permitted
         [where op = "Backfill profile_env" and db = sample_db and s = view_of_u1
            and ev = "Clicked EditButton" and ce = sample_client_env and assets = "[]"]
       writes_after_creation_are_permitted
         [where op = "Backfill profile_env" and db = sample_db and s = editing_u1
            and ev = "Clicked SaveButton" and ce = sample_client_env and assets = "[]"]
  show ?thesis by blast
qed

text \<open>
  C2 as stated fails: the backfill, too, changes a document after its creation, in a field
  that is neither in \<^verbatim>\<open>catchDetails\<close> nor one of the two names.
\<close>

theorem backfill_writes_display_name_after_creation:
  "map_of sample_doc1 ''userDisplayName'' = None
   \<and> map_option (\<lambda>d. map_of d ''userDisplayName'')
        (map_of (apply_operation (Backfill profile_env) sample_db) ''c1'')
       = Some (Some (JStr ''Ann''))"
  by code_simp

text \<open>
  The handlers themselves check only that some user is signed in, and the listener of the
  authentication state leaves the selected catch and the edit mode as they are. So the Save
  control of a form that the owner \<^verbatim>\<open>u1\<close> opened is still rendered after the signed-in user
  has changed to \<^verbatim>\<open>u2\<close>, and saving then writes to the catch of \<^verbatim>\<open>u1\<close> (as far as the
  client decides it).
\<close>

lemma save_after_change_of_user:
  "map_of sample_doc1 ''userId'' = Some (JStr ''u1'')
   \<and> (case run sample_client_env
             [AuthStateChanged (Some ''u1''), CardClicked (mk_catch (''c1'', sample_doc1)),
              Clicked EditButton, AuthStateChanged None, AuthStateChanged (Some ''u2''),
              Typed Location ''Mine'', Clicked SaveButton]
             (initial_state, sample_db, []) of
         (s, db, assets) \<Rightarrow>
           user s = Some ''u2''
           \<and> map_option (\<lambda>d. subfield d ''catchDetails'' ''location'') (map_of db ''c1'')
               = Some (Some (JStr ''Mine'')))"
  by code_simp

text \<open>
  The first variant of the cloud function stores the \<^verbatim>\<open>catchDetails\<close> of the request as
  they are sent. Where they are a text, the edit puts a map of the three fields in its place.
\<close>

lemma edit_replaces_details_that_are_no_map:
  "map_of (edit_fields (form_of [(''catchDetails'', JStr ''at the pier'')])
             [(''catchDetails'', JStr ''at the pier'')]) ''catchDetails''
     = Some (JObj [(''location'', JStr []), (''method'', JStr []), (''notes'', JStr [])])"
  by code_simp

subsection \<open>The size of the image sent to the model\<close>

lemma round_div_le: "0 < b \<Longrightarrow> a \<le> c * b \<Longrightarrow> round_div a b \<le> c"
proof -
  assume b: "0 < b" and a: "a \<le> c * b"
  have "2 * a + b < (c + 1) * (2 * b)" using a b by (simp add: algebra_simps)
  then have "(2 * a + b) div (2 * b) < c + 1"
    using b by (simp add: div_less_iff_less_mult)
  then show ?thesis by (simp add: round_div_def)
qed

lemma round_div_near:
  assumes "0 < b"
  shows "2 * (round_div a b * b) \<le> 2 * a + b" and "2 * a < 2 * (round_div a b * b) + b"
proof -
  define q where "q = (2 * a + b) div (2 * b)"
  have 1: "q * (2 * b) \<le> 2 * a + b" unfolding q_def by (rule div_times_less_eq_dividend)
  have "2 * a + b < (q + 1) * (2 * b)"
    unfolding q_def using assms by (simp add: dividend_less_div_times)
  then have 2: "2 * a + b < q * (2 * b) + 2 * b" by (simp add: algebra_simps)
  from 1 show "2 * (round_div a b * b) \<le> 2 * a + b"
    by (simp add: round_div_def q_def algebra_simps)
  from 2 show "2 * a < 2 * (round_div a b * b) + b"
    by (simp add: round_div_def q_def algebra_simps)
qed


lemma downscaled_size_small:
  "w \<le> 1568 \<Longrightarrow> h \<le> 1568 \<Longrightarrow> downscaled_size (w, h) = (w, h)"
  by (simp add: downscaled_size_def resize_inside_def)

lemma downscaled_size_wide:
  assumes "h \<le> w" and "1568 < w"
  shows "downscaled_size (w, h) = (1568, max 1 (round_div (h * 1568) w))"
  using assms by (simp add: downscaled_size_def resize_inside_def)

lemma downscaled_size_tall:
  assumes "w < h" and "1568 < h"
  shows "downscaled_size (w, h) = (max 1 (round_div (w * 1568) h), 1568)"
  using assms by (simp add: downscaled_size_def resize_inside_def)

text \<open>The edge that does not decide the scale: at least one pixel, less than one pixel from the exact value.\<close>

lemma short_edge:
  assumes "0 < s" and "s \<le> l" and "1568 < l"
  defines "s' \<equiv> max 1 (round_div (s * 1568) l)"
  shows "0 < s'" and "s' \<le> s" and "s' \<le> 1568"
    and "s' * l < 1568 * s + l" and "1568 * s < s' * l + l"
    and "(2 * (s' * l) \<le> 2 * (1568 * s) + l \<and> 2 * (1568 * s) \<le> 2 * (s' * l) + l) \<or> s' = 1"
proof -
  have l: "0 < l" using assms by simp
  have r1: "round_div (s * 1568) l \<le> s"
    using assms(2,3) by (intro round_div_le [OF l]) simp
  have r2: "round_div (s * 1568) l \<le> 1568"
    using assms(2) by (intro round_div_le [OF l]) simp
  note n = round_div_near [OF l, of "s * 1568"]
  show "0 < s'" by (simp add: s'_def)
  show "s' \<le> s" using r1 assms(1) by (simp add: s'_def)
  show "s' \<le> 1568" using r2 by (simp add: s'_def)
  show c: "(2 * (s' * l) \<le> 2 * (1568 * s) + l \<and> 2 * (1568 * s) \<le> 2 * (s' * l) + l) \<or> s' = 1"
  proof (cases "round_div (s * 1568) l = 0")
    case True
    then show ?thesis by (simp add: s'_def)
  next
    case False
    then have "s' = round_div (s * 1568) l" by (simp add: s'_def max_def)
    with n show ?thesis by (simp add: mult.commute)
  qed
  show "s' * l < 1568 * s + l"
  proof (cases "round_div (s * 1568) l = 0")
    case True
    then have "s' = 1" by (simp add: s'_def)
    with assms(1) show ?thesis by simp
  next
    case False
    then have "s' = round_div (s * 1568) l" by (simp add: s'_def max_def)
    with n(1) l show ?thesis by (simp add: mult.commute)
  qed
  show "1568 * s < s' * l + l"
  proof (cases "round_div (s * 1568) l = 0")
    case True
    with n(2) show ?thesis by (simp add: s'_def)
  next
    case False
    then have "s' = round_div (s * 1568) l" by (simp add: s'_def max_def)
    with n(2) l show ?thesis by (simp add: mult.commute)
  qed
qed

text \<open>
  C4. For an image of at least one pixel each way, the longer edge of the image that is sent
  to the model is at most 1568 pixels, and is 1568 pixels when that of the input was
  longer; no edge is longer than it was, and an image within the bound is left as it is;
  downscaling the result again gives the result. The aspect ratio is kept as far as whole
  pixels allow: the edge that does not decide the scale is less than one pixel from its
  exact value, and at most half a pixel from it unless it is the one pixel an edge is never
  less than.
\<close>

theorem downscaled_size_bounded_and_idempotent:
  assumes "0 < w" and "0 < h" and "downscaled_size (w, h) = (w', h')"
  shows "max w' h' \<le> 1568
       \<and> (1568 < max w h \<longrightarrow> max w' h' = 1568)
       \<and> 0 < w' \<and> 0 < h'
       \<and> w' \<le> w \<and> h' \<le> h
       \<and> (w \<le> 1568 \<and> h \<le> 1568 \<longrightarrow> (w', h') = (w, h))
       \<and> downscaled_size (w', h') = (w', h')
       \<and> w' * h < h' * w + max w h \<and> h' * w < w' * h + max w h
       \<and> ((2 * (w' * h) \<le> 2 * (h' * w) + max w h \<and> 2 * (h' * w) \<le> 2 * (w' * h) + max w h)
            \<or> min w' h' = 1)"
proof -
  consider (small) "w \<le> 1568" "h \<le> 1568" | (wide) "h \<le> w" "1568 < w" | (tall) "w < h" "1568 < h"
    by linarith
  then show ?thesis
  proof cases
    case small
    with assms have e: "w' = w" "h' = h" by (simp_all add: downscaled_size_small)
    from small assms(1,2) show ?thesis
      unfolding e by (auto simp: downscaled_size_small max_def)
  next
    case wide
    define s' where "s' = max 1 (round_div (h * 1568) w)"
    from wide assms(3) have e: "w' = 1568" "h' = s'"
      by (simp_all add: downscaled_size_wide s'_def)
    note s = short_edge [OF assms(2) wide, folded s'_def]
    have m: "max w h = w" "max 1568 s' = 1568" "min 1568 s' = s'"
      using wide s(3) by simp_all
    have i: "downscaled_size (1568, s') = (1568, s')"
      using s(3) by (simp add: downscaled_size_small)
    from s wide i show ?thesis
      unfolding e m by (auto simp: mult.commute)
  next
    case tall
    define s' where "s' = max 1 (round_div (w * 1568) h)"
    from tall assms(3) have e: "w' = s'" "h' = 1568"
      by (simp_all add: downscaled_size_tall s'_def)
    have wh: "w \<le> h" using tall by simp
    note s = short_edge [OF assms(1) wh tall(2), folded s'_def]
    have m: "max w h = h" "max s' 1568 = 1568" "min s' 1568 = s'"
      using tall s(3) by simp_all
    have i: "downscaled_size (s', 1568) = (s', 1568)"
      using s(3) by (simp add: downscaled_size_small)
    from s tall i show ?thesis
      unfolding e m by (auto simp: mult.commute)
  qed
qed


theorem downscaled_size_bounded_and_idempotent_witness:
  "downscaled_size (3000, 2001) = (1568, 1046)
   \<and> downscaled_size (1568, 1046) = (1568, 1046)
   \<and> 1046 * 3000 < 1568 * 2001 + (3000::nat)
   \<and> downscaled_size (640, 480) = (640, 480)"
proof -
  have 1: "downscaled_size (3000, 2001) = (1568, 1046)"
    by (simp add: downscaled_size_def resize_inside_def round_div_def)
  have 2: "downscaled_size (640, 480) = (640, 480)"
    by (simp add: downscaled_size_def resize_inside_def)
  from downscaled_size_bounded_and_idempotent [OF _ _ 1]
       downscaled_size_bounded_and_idempotent [OF _ _ 2] 1 2
  show ?thesis by simp
qed

subsection \<open>The two ways of cleaning the answer\<close>

lemma strip_fences_Nil [simp]: "strip_fences [] = []"
  by (simp add: strip_fences.simps)
























lemma lex_Nil [simp]: "lex [] = Some []"
  by (simp add: lex.simps)























lemma strip_leading_Nil [simp]: "strip_leading ws [] = []"
proof -
  have "find (\<lambda>w. w \<noteq> [] \<and> starts_with w []) ws = None"
    by (auto simp: find_None_iff starts_with_def)
  then show ?thesis by (subst strip_leading.simps) simp
qed

















end
